theory Spec2Isabelle
  imports Main
begin

section \<open>Python values and exceptions\<close>

text \<open>
  The functions modelled here take arbitrary Python objects.  Only three things about an
  object matter to the code: whether it is \<open>None\<close>, whether it is a tuple (and then
  its elements), and its identity.  Identities are values of a type \<open>'a\<close>; two objects
  are the same object exactly when their identities are equal, and an identity is never
  reused for another object.  A tuple is not weakly referenceable, so its own identity is
  never the referent of a weak reference and is not recorded.
\<close>

datatype 'a pyval = PyNone | PyObj 'a | PyTuple "'a pyval list"

datatype error =
    IndexError
  | TypeError
  | KeyError string
  | ConversionError
  | RuntimeError string
  | OtherError string

section \<open>\<open>py5/mixins/image.py\<close>: the weak image cache\<close>

text \<open>
  What the surroundings supply to one call of the mixin: which objects are still alive
  (so that calling a weak reference yields the object and not \<open>None\<close>), which objects
  accept a weak reference (\<open>weakref.ref\<close> raises \<open>TypeError\<close> on the others), and the
  converter \<open>self._converter.to_pimage\<close>, which lives in \<open>py5/converter.py\<close> and either
  raises or yields a native image of type \<open>'p\<close>.
\<close>

record ('a, 'p) env =
  live :: "'a \<Rightarrow> bool"
  weakrefable :: "'a \<Rightarrow> bool"
  to_pimage :: "'a pyval \<Rightarrow> error + 'p"

text \<open>
  The mixin's state.  \<open>weak_image_refs\<close> is \<open>self._weak_image_refs\<close>: a list of pairs
  (weak reference, converted image), newest last.  A weak reference is represented by the
  identity of its referent: \<open>weakref.ref(o)\<close> without a callback hands out one shared
  reference object per referent, and a reference whose referent is gone compares equal only
  to itself, so (reference, image) pairs are equal for \<open>list.remove\<close> exactly when the
  referent identities and the images are equal.  \<open>converter_calls\<close> is not a field of the
  class: it logs the arguments of the calls of \<open>to_pimage\<close>, so that "the converter is
  not invoked" can be stated.
\<close>

record ('a, 'p) image_mixin =
  weak_image_refs :: "('a \<times> 'p) list"
  converter_calls :: "'a pyval list"

definition init_mixin :: "('a, 'p) image_mixin" where
  "init_mixin = \<lparr>weak_image_refs = [], converter_calls = []\<rparr>"

definition flush_image_cache :: "('a, 'p) image_mixin \<Rightarrow> ('a, 'p) image_mixin" where
  "flush_image_cache s = s\<lparr>weak_image_refs := []\<rparr>"

text \<open>\<open>if isinstance(image, tuple): image = image[0]\<close>; indexing \<open>()\<close> raises.\<close>

fun first_of_tuple :: "'a pyval \<Rightarrow> error + 'a pyval" where
  "first_of_tuple (PyTuple []) = Inl IndexError"
| "first_of_tuple (PyTuple (v # vs)) = Inr v"
| "first_of_tuple v = Inr v"

text \<open>\<open>ref()\<close>: the referent while it is alive, \<open>None\<close> afterwards.\<close>

definition deref :: "('a \<Rightarrow> bool) \<Rightarrow> 'a \<Rightarrow> 'a option" where
  "deref lv r = (if lv r then Some r else None)"

text \<open>
  \<open>image is ref()\<close>.  The right-hand side is \<open>None\<close> or a weakly referenceable object;
  a tuple is never identical to either.
\<close>

fun py_is :: "'a pyval \<Rightarrow> 'a option \<Rightarrow> bool" where
  "py_is PyNone d = (d = None)"
| "py_is (PyObj a) d = (d = Some a)"
| "py_is (PyTuple vs) d = False"

text \<open>
  The loop \<open>for ref, pimage in reversed(self._weak_image_refs)\<close> of \<open>_check_cache\<close>.
  The list is changed while it is being iterated, so the iterator is modelled as CPython
  implements it: it holds an index that starts at the last position and moves down by one
  per step; it stops when the index is below zero or no longer inside the list.  The first
  argument after the key is the index plus one.  \<open>list.remove\<close> deletes the first element
  equal to its argument.
\<close>

fun scan_refs ::
  "('a \<Rightarrow> bool) \<Rightarrow> 'a pyval \<Rightarrow> nat \<Rightarrow> ('a \<times> 'p) list \<Rightarrow> 'p option \<times> ('a \<times> 'p) list" where
  "scan_refs lv img 0 refs = (None, refs)"
| "scan_refs lv img (Suc i) refs =
    (if i < length refs then
       (case refs ! i of (r, pimage) \<Rightarrow>
          (let refs' = (if deref lv r = None then remove1 (r, pimage) refs else refs)
           in if py_is img (deref lv r) then (Some pimage, refs')
              else scan_refs lv img i refs'))
     else (None, refs))"

definition check_cache ::
  "('a, 'p) env \<Rightarrow> 'a pyval \<Rightarrow> ('a, 'p) image_mixin \<Rightarrow> (error + 'p option) \<times> ('a, 'p) image_mixin" where
  "check_cache env img s =
    (case first_of_tuple img of
       Inl err \<Rightarrow> (Inl err, s)
     | Inr key \<Rightarrow>
         (case scan_refs (live env) key (length (weak_image_refs s)) (weak_image_refs s) of
            (res, refs') \<Rightarrow> (Inr res, s\<lparr>weak_image_refs := refs'\<rparr>)))"

text \<open>\<open>weakref.ref(image)\<close>: \<open>None\<close> and tuples cannot be weakly referenced.\<close>

fun weakref :: "('a, 'p) env \<Rightarrow> 'a pyval \<Rightarrow> error + 'a" where
  "weakref env (PyObj a) = (if weakrefable env a then Inr a else Inl TypeError)"
| "weakref env PyNone = Inl TypeError"
| "weakref env (PyTuple vs) = Inl TypeError"

definition store_cache ::
  "('a, 'p) env \<Rightarrow> 'a pyval \<Rightarrow> 'p \<Rightarrow> ('a, 'p) image_mixin \<Rightarrow> (error + unit) \<times> ('a, 'p) image_mixin" where
  "store_cache env img pimage s =
    (case first_of_tuple img of
       Inl err \<Rightarrow> (Inl err, s)
     | Inr key \<Rightarrow>
         (case weakref env key of
            Inl err \<Rightarrow> (Inl err, s)
          | Inr r \<Rightarrow> (Inr (), s\<lparr>weak_image_refs := weak_image_refs s @ [(r, pimage)]\<rparr>)))"

text \<open>
  \<open>_check_cache_or_convert\<close>.  The converter receives the argument as it was passed (the
  whole tuple, when it is one).  A raise leaves the state as the statements before it made
  it.
\<close>

definition check_cache_or_convert ::
  "('a, 'p) env \<Rightarrow> 'a pyval \<Rightarrow> bool \<Rightarrow> ('a, 'p) image_mixin \<Rightarrow> (error + 'p) \<times> ('a, 'p) image_mixin" where
  "check_cache_or_convert env img cache s =
    (case (if cache then check_cache env img s else (Inr None, s)) of
       (Inl err, s1) \<Rightarrow> (Inl err, s1)
     | (Inr (Some pimage), s1) \<Rightarrow> (Inr pimage, s1)
     | (Inr None, s1) \<Rightarrow>
         (let s2 = s1\<lparr>converter_calls := converter_calls s1 @ [img]\<rparr> in
          case to_pimage env img of
            Inl err \<Rightarrow> (Inl err, s2)
          | Inr pimage \<Rightarrow>
              if cache then
                (case store_cache env img pimage s2 of
                   (Inl err, s3) \<Rightarrow> (Inl err, s3)
                 | (Inr u, s3) \<Rightarrow> (Inr pimage, s3))
              else (Inr pimage, s2)))"

text \<open>
  Sequences of operations on one mixin.  Every call comes with the surroundings it runs in:
  between two calls objects may have died.
\<close>

datatype ('a, 'p) cache_op = Resolve "('a, 'p) env" "'a pyval" bool | Flush

fun apply_op :: "('a, 'p) cache_op \<Rightarrow> ('a, 'p) image_mixin \<Rightarrow> ('a, 'p) image_mixin" where
  "apply_op (Resolve env img cache) s = snd (check_cache_or_convert env img cache s)"
| "apply_op Flush s = flush_image_cache s"

fun run_ops :: "('a, 'p) cache_op list \<Rightarrow> ('a, 'p) image_mixin \<Rightarrow> ('a, 'p) image_mixin" where
  "run_ops [] s = s"
| "run_ops (c # cs) s = run_ops cs (apply_op c s)"

text \<open>Vocabulary for the statements about the cache.\<close>

definition cache_hit :: "('a \<Rightarrow> bool) \<Rightarrow> 'a pyval \<Rightarrow> 'a \<times> 'p \<Rightarrow> bool" where
  "cache_hit lv key e = py_is key (deref lv (fst e))"

definition alive :: "('a \<Rightarrow> bool) \<Rightarrow> 'a \<times> 'p \<Rightarrow> bool" where
  "alive lv e = lv (fst e)"


text \<open>
  Concrete surroundings for the instances below: identities and images are numbers, every
  object accepts a weak reference, and the converter maps the object \<open>a\<close> to the image
  \<open>10 * a\<close>, a non-empty tuple headed by the object \<open>a\<close> to \<open>10 * a\<close> plus the number of
  further elements, and raises on anything else.
\<close>

fun converter_ex :: "nat pyval \<Rightarrow> error + nat" where
  "converter_ex (PyObj a) = Inr (10 * a)"
| "converter_ex (PyTuple (PyObj a # vs)) = Inr (10 * a + length vs)"
| "converter_ex v = Inl ConversionError"

definition env_ex :: "(nat \<Rightarrow> bool) \<Rightarrow> (nat, nat) env" where
  "env_ex lv = \<lparr>live = lv, weakrefable = (\<lambda>a. True), to_pimage = converter_ex\<rparr>"

section \<open>\<open>py5_tools/magics/drawing.py\<close>: capturing the output of a sketch\<close>

text \<open>Characters that cannot be written inside a string literal.\<close>

definition nl :: string where
  "nl = [CHR 0x0A]"

definition dq :: string where
  "dq = [CHR 0x22]"

definition bs :: string where
  "bs = [CHR 0x5C]"

text \<open>
  The three script templates and the framework code, with \<open>str.format\<close> applied: the
  arguments are the width and the height as \<open>format\<close> prints them, the renderer, the
  path of the output file and the prepared code of the cell.
\<close>

datatype template = STANDARD_CODE_TEMPLATE | SAVE_OUTPUT_CODE_TEMPLATE | DXF_CODE_TEMPLATE

datatype read_mode = ReadText | ReadBinary

fun format_template :: "template \<Rightarrow> string \<Rightarrow> string \<Rightarrow> string \<Rightarrow> string \<Rightarrow> string \<Rightarrow> string" where
  "format_template STANDARD_CODE_TEMPLATE a0 a1 a2 a3 a4 =
     nl @ ''def settings():'' @ nl @
     ''    py5.size('' @ a0 @ '', '' @ a1 @ '', py5.'' @ a2 @ '')'' @ nl @ nl @ nl @
     ''def setup():'' @ nl @ a4 @ nl @ nl @
     ''    py5.save_frame('' @ dq @ a3 @ dq @ '', use_thread=False)'' @ nl @
     ''    py5.exit_sketch()'' @ nl"
| "format_template SAVE_OUTPUT_CODE_TEMPLATE a0 a1 a2 a3 a4 =
     nl @ ''def settings():'' @ nl @
     ''    py5.size('' @ a0 @ '', '' @ a1 @ '', py5.'' @ a2 @ '', '' @ dq @ a3 @ dq @ '')'' @ nl @ nl @ nl @
     ''def setup():'' @ nl @ a4 @ nl @ nl @
     ''    py5.exit_sketch()'' @ nl"
| "format_template DXF_CODE_TEMPLATE a0 a1 a2 a3 a4 =
     nl @ ''def settings():'' @ nl @
     ''    py5.size('' @ a0 @ '', '' @ a1 @ '', py5.P3D)'' @ nl @ nl @ nl @
     ''def setup():'' @ nl @
     ''    py5.begin_raw(py5.DXF, '' @ dq @ a3 @ dq @ '')'' @ nl @ nl @ a4 @ nl @ nl @
     ''    py5.end_raw()'' @ nl @
     ''    py5.exit_sketch()'' @ nl"

definition CODE_FRAMEWORK :: "string \<Rightarrow> string \<Rightarrow> string \<Rightarrow> string" where
  "CODE_FRAMEWORK a0 a1 a2 =
     nl @ ''import py5'' @ nl @ nl @ a2 @ nl @ nl @
     ''with open('' @ [CHR 0x27] @ a0 @ [CHR 0x27] @ '', '' @ [CHR 0x27] @ ''r'' @ [CHR 0x27] @ '') as f:'' @ nl @
     ''    eval(compile(f.read(), '' @ [CHR 0x27] @ a0 @ [CHR 0x27] @ '', ''
        @ [CHR 0x27] @ ''exec'' @ [CHR 0x27] @ ''))'' @ nl @ nl @
     ''py5.run_sketch(block=True)'' @ nl @
     ''if '' @ a1 @ '' and py5.is_dead_from_error:'' @ nl @
     ''    py5.exit_sketch()'' @ nl"

text \<open>\<open>code.replace('"""', r'\"\"\"')\<close>: from the left, without overlaps.\<close>

fun escape_triple_quotes :: "string \<Rightarrow> string" where
  "escape_triple_quotes (a # b # c # rest) =
     (if [a] = dq \<and> [b] = dq \<and> [c] = dq
      then bs @ dq @ bs @ dq @ bs @ dq @ escape_triple_quotes rest
      else a # escape_triple_quotes (b # c # rest))"
| "escape_triple_quotes cs = cs"

text \<open>
  The part of the process and the machine that \<open>_run_sketch\<close> and the magics touch.
  \<open>user_ns\<close> is the dictionary passed as \<open>user_ns\<close> (the notebook's namespace); one of
  its values can be the dictionary itself.  \<open>dirs\<close> and \<open>files\<close> are the file system,
  \<open>stdout\<close> the printed lines, \<open>displayed\<close> what \<open>display\<close> was called with.
\<close>

datatype nsval = Namespace | PilImage string | Other string

datatype captured = CText string | CBytes string

record world =
  is_running :: bool
  stdout :: "string list"
  user_ns :: "string \<rightharpoonup> nsval"
  dirs :: "string set"
  files :: "string \<rightharpoonup> string"
  displayed :: "captured list"

text \<open>
  What is outside the file.  \<open>mkdtemp\<close> names the directory that
  \<open>tempfile.TemporaryDirectory()\<close> creates, given the directories that exist.
  \<open>exec_code\<close> is \<open>exec(code, user_ns)\<close> of the framework code: it runs the generated
  script and the sketch, may change all of the world, and may raise.  \<open>decode\<close> is the
  decoding that reading a file opened in text mode performs, which can raise.
  \<open>indent\<close> is \<open>textwrap.indent(code, '    ')\<close>, \<open>fix_triple_quote_str\<close> is imported
  from \<open>util.py\<close>; \<open>pil_open\<close> is \<open>PIL.Image.open(io.BytesIO(png)).convert(mode='RGB')\<close>
  and \<open>pil_save\<close> gives the bytes that \<open>pil_img.save(filename)\<close> writes.
\<close>

record sys_env =
  mkdtemp :: "string set \<Rightarrow> string"
  exec_code :: "string \<Rightarrow> world \<Rightarrow> error option \<times> world"
  decode :: "string \<Rightarrow> error + string"
  indent :: "string \<Rightarrow> string"
  fix_triple_quote_str :: "string \<Rightarrow> string"
  pil_open :: "string \<Rightarrow> error + string"
  pil_save :: "string \<Rightarrow> string \<Rightarrow> string"

definition select_template :: "string \<Rightarrow> template \<times> string \<times> read_mode" where
  "select_template renderer =
     (if renderer = ''SVG'' then (SAVE_OUTPUT_CODE_TEMPLATE, ''.svg'', ReadText)
      else if renderer = ''PDF'' then (SAVE_OUTPUT_CODE_TEMPLATE, ''.pdf'', ReadBinary)
      else if renderer = ''DXF'' then (DXF_CODE_TEMPLATE, ''.dxf'', ReadText)
      else (STANDARD_CODE_TEMPLATE, ''.png'', ReadBinary))"

definition already_running_message :: string where
  "already_running_message =
     ''You must exit the currently running sketch before running another sketch.''"

text \<open>\<open>with open(temp_out, read_mode) as f: result = f.read()\<close>\<close>

fun read_file :: "sys_env \<Rightarrow> read_mode \<Rightarrow> string \<Rightarrow> error + captured" where
  "read_file env ReadBinary content = Inr (CBytes content)"
| "read_file env ReadText content =
     (case decode env content of Inl err \<Rightarrow> Inl err | Inr text \<Rightarrow> Inr (CText text))"

text \<open>
  Leaving the \<open>with tempfile.TemporaryDirectory()\<close> block, normally or by an exception,
  removes the directory and what is in it.
\<close>

definition inside :: "string \<Rightarrow> string \<Rightarrow> bool" where
  "inside d path = (take (length d + 1) path = d @ ''/'')"

definition cleanup :: "string \<Rightarrow> world \<Rightarrow> world" where
  "cleanup d w =
     w\<lparr>dirs := {p \<in> dirs w. p \<noteq> d \<and> \<not> inside d p},
       files := (\<lambda>p. if inside d p then None else files w p)\<rparr>"

text \<open>
  The statements inside the \<open>with\<close> block: write the script, execute the framework code,
  read the output file if there is one.
\<close>

definition run_in_tempdir ::
  "sys_env \<Rightarrow> template \<Rightarrow> string \<Rightarrow> read_mode \<Rightarrow> string \<Rightarrow> string \<Rightarrow> string \<Rightarrow> string \<Rightarrow> string
    \<Rightarrow> world \<Rightarrow> (error + captured option) \<times> world" where
  "run_in_tempdir env template suffix mode renderer width height prepared_code tempdir w =
     (let temp_py = tempdir @ ''/py5_code.py'';
          temp_out = tempdir @ ''/output'' @ suffix;
          code = format_template template width height renderer temp_out prepared_code;
          w1 = w\<lparr>files := (files w)(temp_py \<mapsto> code)\<rparr>
      in case exec_code env (CODE_FRAMEWORK temp_py ''True'' '''') w1 of
           (Some err, w2) \<Rightarrow> (Inl err, w2)
         | (None, w2) \<Rightarrow>
             (case files w2 temp_out of
                Some content \<Rightarrow>
                  (case read_file env mode content of
                     Inl err \<Rightarrow> (Inl err, w2)
                   | Inr result \<Rightarrow> (Inr (Some result), w2))
              | None \<Rightarrow> (Inr None, w2)))"

text \<open>\<open>_run_sketch(renderer, code, width, height, user_ns, safe_exec)\<close>\<close>

definition run_sketch ::
  "sys_env \<Rightarrow> string \<Rightarrow> string \<Rightarrow> string \<Rightarrow> string \<Rightarrow> bool \<Rightarrow> world
    \<Rightarrow> (error + captured option) \<times> world" where
  "run_sketch env renderer code width height safe_exec w =
     (case select_template renderer of (template, suffix, mode) \<Rightarrow>
        if is_running w
        then (Inr None, w\<lparr>stdout := stdout w @ [already_running_message]\<rparr>)
        else
          (let w1 = (if safe_exec then w
                     else w\<lparr>user_ns := (user_ns w)(''_py5_user_ns'' \<mapsto> Namespace)\<rparr>);
               prepared_code =
                 (if safe_exec then fix_triple_quote_str env (indent env code)
                  else ''    exec('' @ dq @ dq @ dq @ escape_triple_quotes code @ dq @ dq @ dq
                         @ '', _py5_user_ns)'');
               tempdir = mkdtemp env (dirs w1);
               w2 = w1\<lparr>dirs := insert tempdir (dirs w1)\<rparr>
           in case run_in_tempdir env template suffix mode renderer width height prepared_code
                     tempdir w2 of
                (Inl err, w3) \<Rightarrow> (Inl err, cleanup tempdir w3)
              | (Inr result, w3) \<Rightarrow>
                  (let w4 = cleanup tempdir w3 in
                   if safe_exec then (Inr result, w4)
                   else if ''_py5_user_ns'' \<in> dom (user_ns w4)
                        then (Inr result, w4\<lparr>user_ns := (user_ns w4)(''_py5_user_ns'' := None)\<rparr>)
                        else (Inl (KeyError ''_py5_user_ns''), w4))))"

text \<open>
  The magics.  \<open>parse_argstring\<close> belongs to IPython; its result is given.  A missing
  optional argument is \<open>None\<close>.  Width and height are carried as \<open>format\<close> prints them.
\<close>

record magic_args =
  width :: string
  height :: string
  filename :: "string option"
  unsafe :: bool
  renderer :: string
  variable :: "string option"

text \<open>Truth values of the objects tested with \<open>if\<close>: \<open>None\<close> and empty contents are false.\<close>

fun truthy :: "captured option \<Rightarrow> bool" where
  "truthy None = False"
| "truthy (Some (CText t)) = (t \<noteq> [])"
| "truthy (Some (CBytes b)) = (b \<noteq> [])"

fun truthy_str :: "string option \<Rightarrow> bool" where
  "truthy_str None = False"
| "truthy_str (Some t) = (t \<noteq> [])"

fun content_of :: "captured \<Rightarrow> string" where
  "content_of (CText t) = t"
| "content_of (CBytes b) = b"

text \<open>
  \<open>_filename_check\<close>: create the parent directory, with its ancestors, when it does not
  exist.  The parent of a path is what stands before its last slash.
\<close>

definition parent_of :: "string \<Rightarrow> string" where
  "parent_of path =
     (let r = dropWhile (\<lambda>c. c \<noteq> CHR ''/'') (rev path)
      in if r = [] then ''.'' else if tl r = [] then ''/'' else rev (tl r))"

definition path_exists :: "world \<Rightarrow> string \<Rightarrow> bool" where
  "path_exists w path = (path = ''.'' \<or> path = ''/'' \<or> path \<in> dirs w \<or> path \<in> dom (files w))"

definition ancestors :: "string \<Rightarrow> string list" where
  "ancestors path = [take i path. i \<leftarrow> [1..<length path], path ! i = CHR ''/''] @ [path]"

definition filename_check :: "string \<Rightarrow> world \<Rightarrow> world" where
  "filename_check fname w =
     (if path_exists w (parent_of fname) then w
      else w\<lparr>dirs := dirs w \<union> set (ancestors (parent_of fname))\<rparr>)"

definition print_line :: "string \<Rightarrow> world \<Rightarrow> world" where
  "print_line line w = w\<lparr>stdout := stdout w @ [line]\<rparr>"

definition write_file :: "string \<Rightarrow> string \<Rightarrow> world \<Rightarrow> world" where
  "write_file fname content w = w\<lparr>files := (files w)(fname \<mapsto> content)\<rparr>"

definition display :: "captured \<Rightarrow> world \<Rightarrow> world" where
  "display c w = w\<lparr>displayed := displayed w @ [c]\<rparr>"

text \<open>
  \<open>_variable_name_check\<close>: \<open>re.match('^[a-zA-Z_]\w*$', varname)\<close>, over ASCII; \<open>$\<close> also
  matches before a final newline.
\<close>

definition is_letter :: "char \<Rightarrow> bool" where
  "is_letter c = (let n = (of_char c :: nat) in (97 \<le> n \<and> n \<le> 122) \<or> (65 \<le> n \<and> n \<le> 90))"

definition is_word_char :: "char \<Rightarrow> bool" where
  "is_word_char c =
     (let n = (of_char c :: nat) in is_letter c \<or> (48 \<le> n \<and> n \<le> 57) \<or> c = CHR ''_'')"

fun variable_name_check :: "string \<Rightarrow> bool" where
  "variable_name_check [] = False"
| "variable_name_check (c # cs) =
     ((is_letter c \<or> c = CHR ''_'')
      \<and> (list_all is_word_char cs
         \<or> (cs \<noteq> [] \<and> [last cs] = nl \<and> list_all is_word_char (butlast cs))))"

definition py5drawpdf :: "sys_env \<Rightarrow> magic_args \<Rightarrow> string \<Rightarrow> world \<Rightarrow> (error + unit) \<times> world" where
  "py5drawpdf env args cell w =
     (case run_sketch env ''PDF'' cell (width args) (height args) (\<not> unsafe args) w of
        (Inl err, w1) \<Rightarrow> (Inl err, w1)
      | (Inr pdf, w1) \<Rightarrow>
          if truthy pdf then
            (case filename args of
               None \<Rightarrow> (Inl TypeError, w1)
             | Some fname \<Rightarrow>
                 (Inr (), print_line (''PDF written to '' @ fname)
                            (write_file fname (content_of (the pdf)) (filename_check fname w1))))
          else (Inr (), w1))"

definition py5drawdxf :: "sys_env \<Rightarrow> magic_args \<Rightarrow> string \<Rightarrow> world \<Rightarrow> (error + unit) \<times> world" where
  "py5drawdxf env args cell w =
     (case run_sketch env ''DXF'' cell (width args) (height args) (\<not> unsafe args) w of
        (Inl err, w1) \<Rightarrow> (Inl err, w1)
      | (Inr dxf, w1) \<Rightarrow>
          if truthy dxf then
            (case filename args of
               None \<Rightarrow> (Inl TypeError, w1)
             | Some fname \<Rightarrow>
                 (Inr (), print_line (''DXF written to '' @ fname)
                            (write_file fname (content_of (the dxf)) (filename_check fname w1))))
          else (Inr (), w1))"

definition py5drawsvg :: "sys_env \<Rightarrow> magic_args \<Rightarrow> string \<Rightarrow> world \<Rightarrow> (error + unit) \<times> world" where
  "py5drawsvg env args cell w =
     (case run_sketch env ''SVG'' cell (width args) (height args) (\<not> unsafe args) w of
        (Inl err, w1) \<Rightarrow> (Inl err, w1)
      | (Inr svg, w1) \<Rightarrow>
          if truthy svg then
            (let w2 = (if truthy_str (filename args)
                       then print_line (''SVG drawing written to '' @ the (filename args))
                              (write_file (the (filename args)) (content_of (the svg))
                                 (filename_check (the (filename args)) w1))
                       else w1)
             in (Inr (), display (the svg) w2))
          else (Inr (), w1))"

text \<open>The part of \<open>py5draw\<close> that follows a truthy \<open>png\<close>.\<close>

definition py5draw_post :: "sys_env \<Rightarrow> magic_args \<Rightarrow> captured \<Rightarrow> world \<Rightarrow> (error + unit) \<times> world" where
  "py5draw_post env args png w1 =
     (if truthy_str (filename args) \<or> truthy_str (variable args) then
        (case pil_open env (content_of png) of
           Inl err \<Rightarrow> (Inl err, w1)
         | Inr pil_img \<Rightarrow>
             (let w2 = (if truthy_str (filename args)
                        then print_line (''PNG file written to '' @ the (filename args))
                               (write_file (the (filename args))
                                  (pil_save env pil_img (the (filename args)))
                                  (filename_check (the (filename args)) w1))
                        else w1);
                  w3 = (if truthy_str (variable args)
                        then (if variable_name_check (the (variable args))
                              then print_line (''PIL Image assigned to '' @ the (variable args))
                                     (w2\<lparr>user_ns := (user_ns w2)(the (variable args) \<mapsto> PilImage pil_img)\<rparr>)
                              else print_line (''Invalid variable name '' @ the (variable args)) w2)
                        else w2)
              in (Inr (), display png w3)))
      else (Inr (), display png w1))"

definition py5draw :: "sys_env \<Rightarrow> magic_args \<Rightarrow> string \<Rightarrow> world \<Rightarrow> (error + unit) \<times> world" where
  "py5draw env args cell w =
     (if renderer args = ''SVG''
      then (Inr (), print_line ''please use %%py5drawsvg for SVG drawings.'' w)
      else if renderer args = ''PDF''
      then (Inr (), print_line ''please use %%py5drawpdf for PDFs.'' w)
      else if renderer args \<notin> set [''HIDDEN'', ''JAVA2D'', ''P2D'', ''P3D'']
      then (Inr (), print_line (''unknown renderer '' @ renderer args) w)
      else
        (case run_sketch env (renderer args) cell (width args) (height args) (\<not> unsafe args) w of
           (Inl err, w1) \<Rightarrow> (Inl err, w1)
         | (Inr png, w1) \<Rightarrow>
             if truthy png then py5draw_post env args (the png) w1 else (Inr (), w1)))"

section \<open>\<open>py5/mixins/data.py\<close>: loading JSON\<close>

text \<open>
  The argument \<open>filename\<close> of \<open>load_json\<close> is a \<open>str\<close> or a \<open>Path\<close>; a \<open>Path\<close> is
  represented by the string \<open>str\<close> gives for it.  Paths are POSIX paths: absolute when they
  start with a slash, joined with a slash.
\<close>

datatype source = Str string | PathObj string

fun str_of :: "source \<Rightarrow> string" where
  "str_of (Str s) = s"
| "str_of (PathObj s) = s"

record response =
  status_code :: int
  reason :: string
  body :: string

text \<open>What \<open>load_json\<close> does to the outside, in order.\<close>

datatype event = HttpGet string | FsExists string | FsOpen string

text \<open>
  The outside of \<open>load_json\<close>: \<open>requests.get\<close>, \<open>response.json()\<close>, the result of
  \<open>self.sketch_path()\<close>, \<open>Path.exists\<close>, reading an opened file, and \<open>json.load\<close> with
  the keyword arguments of the call.  Each of the calls can raise.
\<close>

record 'j data_env =
  requests_get :: "string \<Rightarrow> error + response"
  response_json :: "response \<Rightarrow> error + 'j"
  sketch_path :: string
  fs_exists :: "string \<Rightarrow> bool"
  fs_read :: "string \<Rightarrow> error + string"
  json_load :: "string \<Rightarrow> error + 'j"

text \<open>\<open>re.match(r'https?://', filename)\<close>: the pattern is matched at the start only.\<close>

definition is_url :: "string \<Rightarrow> bool" where
  "is_url s = (take 7 s = ''http://'' \<or> take 8 s = ''https://'')"

definition is_absolute :: "string \<Rightarrow> bool" where
  "is_absolute path = (take 1 path = ''/'')"

definition join :: "string \<Rightarrow> string \<Rightarrow> string" where
  "join a b = (if a \<noteq> [] \<and> last a = CHR ''/'' then a @ b else a @ ''/'' @ b)"

text \<open>The value of \<open>path\<close> before \<open>path.exists()\<close>, with the existence tests made on the way.\<close>

definition resolve_path :: "'j data_env \<Rightarrow> string \<Rightarrow> string \<times> event list" where
  "resolve_path env name =
     (if \<not> is_absolute name then
        (let cwd = sketch_path env; in_data = join (join cwd ''data'') name
         in if fs_exists env in_data then (in_data, [FsExists in_data])
            else (join cwd name, [FsExists in_data]))
      else (name, []))"

definition load_json_url :: "'j data_env \<Rightarrow> string \<Rightarrow> (error + 'j) \<times> event list" where
  "load_json_url env url =
     (case requests_get env url of
        Inl err \<Rightarrow> (Inl err, [HttpGet url])
      | Inr resp \<Rightarrow>
          if status_code resp = 200 then (response_json env resp, [HttpGet url])
          else (Inl (RuntimeError (''Unable to download JSON URL: '' @ reason resp)), [HttpGet url]))"

definition load_json_path :: "'j data_env \<Rightarrow> string \<Rightarrow> (error + 'j) \<times> event list" where
  "load_json_path env name =
     (case resolve_path env name of (path, evs) \<Rightarrow>
        if fs_exists env path then
          (case fs_read env path of
             Inl err \<Rightarrow> (Inl err, evs @ [FsExists path, FsOpen path])
           | Inr text \<Rightarrow> (json_load env text, evs @ [FsExists path, FsOpen path]))
        else (Inl (RuntimeError (''Unable to find JSON file '' @ name)), evs @ [FsExists path]))"

fun load_json :: "'j data_env \<Rightarrow> source \<Rightarrow> (error + 'j) \<times> event list" where
  "load_json env (Str s) = (if is_url s then load_json_url env s else load_json_path env s)"
| "load_json env (PathObj s) = load_json_path env s"

definition is_fs_event :: "event \<Rightarrow> bool" where
  "is_fs_event e = (case e of HttpGet u \<Rightarrow> False | FsExists p \<Rightarrow> True | FsOpen p \<Rightarrow> True)"

section \<open>Concrete surroundings for the instances\<close>

definition world_ex :: world where
  "world_ex = \<lparr>is_running = False, stdout = [], user_ns = [''x'' \<mapsto> Other ''1''],
               dirs = {''/tmp''}, files = Map.empty, displayed = []\<rparr>"

text \<open>
  The directory created is \<open>/tmp/tmpa\<close>; decoding fails on the content \<open>bad\<close>; the
  helpers for text and images do nothing of interest.
\<close>

definition sys_env_ex :: "(string \<Rightarrow> world \<Rightarrow> error option \<times> world) \<Rightarrow> sys_env" where
  "sys_env_ex ex =
     \<lparr>mkdtemp = (\<lambda>ds. ''/tmp/tmpa''), exec_code = ex,
      decode = (\<lambda>c. if c = ''bad'' then Inl (OtherError ''UnicodeDecodeError'') else Inr c),
      indent = (\<lambda>c. c), fix_triple_quote_str = (\<lambda>c. c),
      pil_open = (\<lambda>c. Inr c), pil_save = (\<lambda>img f. img)\<rparr>"

text \<open>
  Three executions: one finds the directory and the script in place and saves the output
  file named by the second argument with the given content, one raises (as
  \<open>compile\<close> does on a script that is not valid Python), one saves nothing.
\<close>

definition exec_saves :: "string \<Rightarrow> string \<Rightarrow> string \<Rightarrow> world \<Rightarrow> error option \<times> world" where
  "exec_saves out content code w =
     (if ''/tmp/tmpa'' \<in> dirs w \<and> files w ''/tmp/tmpa/py5_code.py'' \<noteq> None
      then (None, w\<lparr>files := (files w)(out \<mapsto> content)\<rparr>)
      else (Some (OtherError ''FileNotFoundError''), w))"

definition exec_raises :: "string \<Rightarrow> world \<Rightarrow> error option \<times> world" where
  "exec_raises code w = (Some (OtherError ''SyntaxError''), w)"

definition args_ex :: magic_args where
  "args_ex = \<lparr>width = ''100'', height = ''100'', filename = Some ''out/a.pdf'', unsafe = True,
              renderer = ''P2D'', variable = Some ''img''\<rparr>"

text \<open>
  A sketch directory \<open>/sk\<close> that holds \<open>data/a.json\<close> and \<open>b.json\<close>, a server that
  answers \<open>http://h/ok\<close> with status 200 and everything else with 404; parsing returns the
  text as it is.
\<close>

definition data_env_ex :: "string data_env" where
  "data_env_ex =
     \<lparr>requests_get = (\<lambda>u. if u = ''http://h/ok''
                          then Inr \<lparr>status_code = 200, reason = ''OK'', body = ''[1]''\<rparr>
                          else Inr \<lparr>status_code = 404, reason = ''Not Found'', body = ''''\<rparr>),
      response_json = (\<lambda>r. Inr (body r)),
      sketch_path = ''/sk'',
      fs_exists = (\<lambda>p. p = ''/sk/data/a.json'' \<or> p = ''/sk/b.json''),
      fs_read = (\<lambda>p. if p = ''/sk/data/a.json'' then Inr ''{}'' else Inr ''[2]''),
      json_load = (\<lambda>t. Inr t)\<rparr>"

section \<open>The cache lookup: what the reverse scan computes\<close>

lemma filter_remove1_dead: "\<not> P x \<Longrightarrow> filter P (remove1 x xs) = filter P xs"
  by (induction xs) auto

lemma nth_in_take_Suc: "i < length xs \<Longrightarrow> xs ! i \<in> set (take (Suc i) xs)"
  by (simp add: take_Suc_conv_app_nth)

lemma remove1_take_Suc:
  assumes "i < length xs"
  shows "remove1 (xs ! i) xs = remove1 (xs ! i) (take (Suc i) xs) @ drop (Suc i) xs"
proof -
  have "remove1 (xs ! i) (take (Suc i) xs @ drop (Suc i) xs)
        = remove1 (xs ! i) (take (Suc i) xs) @ drop (Suc i) xs"
    using nth_in_take_Suc[OF assms] by (simp only: remove1_append if_True)
  then show ?thesis by (simp only: append_take_drop_id)
qed

lemma length_remove1_take_Suc:
  assumes "i < length xs"
  shows "length (remove1 (xs ! i) (take (Suc i) xs)) = i"
  using nth_in_take_Suc[OF assms] assms by (simp add: length_remove1)

lemma cache_hit_dead_iff: "\<not> lv (fst e) \<Longrightarrow> cache_hit lv k e \<longleftrightarrow> k = PyNone"
  by (cases k) (simp_all add: cache_hit_def deref_def)

lemma cache_hit_obj_iff: "cache_hit lv (PyObj x) e \<longleftrightarrow> lv (fst e) \<and> fst e = x"
  by (auto simp add: cache_hit_def deref_def)

lemma scan_refs_step_live:
  assumes "L ! n = e" "n < length L" "lv (fst e)"
  shows "scan_refs lv k (Suc n) L =
         (if cache_hit lv k e then (Some (snd e), L) else scan_refs lv k n L)"
  using assms by (cases e) (simp add: cache_hit_def deref_def)

lemma scan_refs_step_dead:
  assumes "L ! n = e" "n < length L" "\<not> lv (fst e)"
  shows "scan_refs lv k (Suc n) L =
         (if cache_hit lv k e then (Some (snd e), remove1 e L)
          else scan_refs lv k n (remove1 e L))"
  using assms by (cases e) (simp add: cache_hit_def deref_def)

declare scan_refs.simps(2) [simp del]

text \<open>A scan over a stretch without a hit drops exactly the expired entries of the stretch.\<close>

lemma scan_refs_miss:
  "n \<le> length L \<Longrightarrow> \<forall>e\<in>set (take n L). \<not> cache_hit lv k e \<Longrightarrow>
   scan_refs lv k n L = (None, filter (alive lv) (take n L) @ drop n L)"
proof (induction n arbitrary: L)
  case 0
  then show ?case by simp
next
  case (Suc n)
  define e where "e = L ! n"
  have n: "n < length L" using Suc.prems by simp
  have tk: "take (Suc n) L = take n L @ [e]" using n e_def by (simp add: take_Suc_conv_app_nth)
  have nh: "\<not> cache_hit lv k e" using Suc.prems(2) tk by simp
  show ?case
  proof (cases "lv (fst e)")
    case True
    have "scan_refs lv k (Suc n) L = scan_refs lv k n L"
      using scan_refs_step_live[of L n e lv k] e_def n True nh by simp
    also have "\<dots> = (None, filter (alive lv) (take n L) @ drop n L)"
      using Suc.IH[of L] Suc.prems tk n by simp
    also have "drop n L = e # drop (Suc n) L" using n e_def by (simp add: Cons_nth_drop_Suc)
    finally show ?thesis using tk True alive_def[of lv e] by simp
  next
    case False
    then have nal: "\<not> alive lv e" by (simp add: alive_def)
    let ?L2 = "remove1 e L"
    have L2: "?L2 = remove1 e (take (Suc n) L) @ drop (Suc n) L"
      using remove1_take_Suc[OF n] e_def by simp
    have len: "length (remove1 e (take (Suc n) L)) = n"
      using length_remove1_take_Suc[OF n] e_def by simp
    have tk2: "take n ?L2 = remove1 e (take (Suc n) L)" using L2 len by simp
    have dr2: "drop n ?L2 = drop (Suc n) L" using L2 len by simp
    have "scan_refs lv k (Suc n) L = scan_refs lv k n ?L2"
      using scan_refs_step_dead[of L n e lv k] e_def n False nh by simp
    also have "\<dots> = (None, filter (alive lv) (take n ?L2) @ drop n ?L2)"
    proof (rule Suc.IH)
      show "n \<le> length ?L2" using L2 len by simp
      show "\<forall>e\<in>set (take n ?L2). \<not> cache_hit lv k e"
        using Suc.prems(2) tk2 by (metis notin_set_remove1)
    qed
    finally show ?thesis using tk2 dr2 nal by (simp add: filter_remove1_dead)
  qed
qed

text \<open>
  A scan that meets a hit \<open>e\<close> after a stretch \<open>B\<close> without one: the expired entries of
  \<open>B\<close> are gone and \<open>e\<close> supplies the image.  Because \<open>list.remove\<close> deletes the first
  equal pair, an expired pair that also occurs further to the front loses its front copy;
  a list without repeated pairs keeps its front \<open>A\<close> as it is.
\<close>

lemma scan_refs_hit:
  assumes "cache_hit lv k e" and "\<forall>b\<in>set B. \<not> cache_hit lv k b"
  shows "\<exists>A'. scan_refs lv k (Suc (length A + length B)) (A @ e # B @ R)
               = (Some (snd e), A' @ filter (alive lv) (e # B) @ R)
             \<and> filter (alive lv) A' = filter (alive lv) A
             \<and> (distinct (A @ e # B) \<longrightarrow> A' = A)"
  using assms(2)
proof (induction "length A + length B" arbitrary: A B R rule: less_induct)
  case less
  let ?al = "alive lv"
  show ?case
  proof (cases B rule: rev_cases)
    case Nil
    have nth: "(A @ e # R) ! length A = e" by simp
    have len: "length A < length (A @ e # R)" by simp
    show ?thesis
    proof (cases "lv (fst e)")
      case True
      have "scan_refs lv k (Suc (length A)) (A @ e # R) = (Some (snd e), A @ e # R)"
        using scan_refs_step_live[of _ _ e lv k, OF nth len True] assms(1) by simp
      then show ?thesis using Nil True alive_def[of lv e] by (intro exI[of _ A]) simp
    next
      case False
      then have nal: "\<not> alive lv e" by (simp add: alive_def)
      have "scan_refs lv k (Suc (length A)) (A @ e # R) = (Some (snd e), remove1 e (A @ e # R))"
        using scan_refs_step_dead[of _ _ e lv k, OF nth len False] assms(1) by simp
      moreover have "remove1 e (A @ e # R) = remove1 e (A @ [e]) @ R"
        by (simp add: remove1_append)
      moreover have "filter ?al (remove1 e (A @ [e])) = filter ?al A"
        using nal by (simp add: filter_remove1_dead)
      moreover have "distinct (A @ [e]) \<longrightarrow> remove1 e (A @ [e]) = A"
        by (simp add: remove1_append)
      ultimately show ?thesis using Nil nal
        by (intro exI[of _ "remove1 e (A @ [e])"]) simp
    qed
  next
    case (snoc B1 b)
    let ?L = "A @ e # B @ R"
    let ?n = "length A + length B"
    have nth: "?L ! ?n = b" using snoc by (simp add: nth_append)
    have len: "?n < length ?L" by simp
    have nhb: "\<not> cache_hit lv k b" using less.prems snoc by simp
    have nhB1: "\<forall>x\<in>set B1. \<not> cache_hit lv k x" using less.prems snoc by simp
    show ?thesis
    proof (cases "lv (fst b)")
      case True
      have "scan_refs lv k (Suc ?n) ?L = scan_refs lv k ?n ?L"
        using scan_refs_step_live[of _ _ b lv k, OF nth len True] nhb by simp
      also have "\<dots> = scan_refs lv k (Suc (length A + length B1)) (A @ e # B1 @ (b # R))"
        using snoc by simp
      finally have st: "scan_refs lv k (Suc ?n) ?L
            = scan_refs lv k (Suc (length A + length B1)) (A @ e # B1 @ (b # R))" .
      have "length A + length B1 < length A + length B" using snoc by simp
      from less.hyps[OF this nhB1, of "b # R"] obtain A' where
        A': "scan_refs lv k (Suc (length A + length B1)) (A @ e # B1 @ (b # R))
               = (Some (snd e), A' @ filter ?al (e # B1) @ (b # R))"
            "filter ?al A' = filter ?al A" "distinct (A @ e # B1) \<longrightarrow> A' = A"
        by blast
      have "A' @ filter ?al (e # B1) @ (b # R) = A' @ filter ?al (e # B) @ R"
        using snoc True alive_def[of lv b] by simp
      then have "scan_refs lv k (Suc ?n) ?L = (Some (snd e), A' @ filter ?al (e # B) @ R)"
        using st A'(1) by (simp only:)
      moreover have "distinct (A @ e # B) \<longrightarrow> A' = A"
        using snoc A'(3) by simp
      ultimately show ?thesis using A'(2) by blast
    next
      case False
      then have nalb: "\<not> alive lv b" by (simp add: alive_def)
      have e_live: "lv (fst e)"
      proof (rule ccontr)
        assume "\<not> lv (fst e)"
        then have "k = PyNone" using assms(1) by (simp add: cache_hit_dead_iff)
        then have "cache_hit lv k b" using False by (simp add: cache_hit_dead_iff)
        then show False using nhb by simp
      qed
      have bne: "b \<noteq> e" using False e_live by auto
      have st: "scan_refs lv k (Suc ?n) ?L = scan_refs lv k ?n (remove1 b ?L)"
        using scan_refs_step_dead[of _ _ b lv k, OF nth len False] nhb by simp
      consider (inA) "b \<in> set A" | (inB) "b \<notin> set A" "b \<in> set B1"
        | (fresh) "b \<notin> set A" "b \<notin> set B1" by blast
      then show ?thesis
      proof cases
        case inA
        let ?A2 = "remove1 b A"
        have r: "remove1 b ?L = ?A2 @ e # B @ R" using inA by (simp add: remove1_append)
        have posA: "0 < length A" using inA by (rule length_pos_if_in_set)
        have lA2: "length ?A2 = length A - 1" using inA by (simp add: length_remove1)
        have lenA2: "length ?A2 + length B < length A + length B" "Suc (length ?A2) = length A"
          using posA lA2 by arith+
        from less.hyps[OF lenA2(1) less.prems, of R] obtain A' where
          A': "scan_refs lv k (Suc (length ?A2 + length B)) (?A2 @ e # B @ R)
                 = (Some (snd e), A' @ filter ?al (e # B) @ R)"
              "filter ?al A' = filter ?al ?A2"
          by blast
        have "Suc (length ?A2 + length B) = ?n" using lenA2(2) by simp
        then have "scan_refs lv k (Suc ?n) ?L = (Some (snd e), A' @ filter ?al (e # B) @ R)"
          using st r A'(1) by (simp only:)
        moreover have "filter ?al A' = filter ?al A"
          using A'(2) nalb by (simp add: filter_remove1_dead)
        moreover have "distinct (A @ e # B) \<longrightarrow> A' = A" using inA snoc by auto
        ultimately show ?thesis by blast
      next
        case inB
        let ?B2 = "remove1 b B1 @ [b]"
        have r: "remove1 b ?L = A @ e # ?B2 @ R"
          using inB bne snoc by (simp add: remove1_append)
        have posB: "0 < length B1" using inB(2) by (rule length_pos_if_in_set)
        have "length (remove1 b B1) = length B1 - 1" using inB(2) by (simp add: length_remove1)
        then have lenB2: "length ?B2 = length B1"
          using posB by simp
        then have lt: "length A + length ?B2 < length A + length B" using snoc by simp
        have nh2: "\<forall>x\<in>set ?B2. \<not> cache_hit lv k x"
          using nhB1 nhb by (auto dest: notin_set_remove1)
        from less.hyps[OF lt nh2, of R] obtain A' where
          A': "scan_refs lv k (Suc (length A + length ?B2)) (A @ e # ?B2 @ R)
                 = (Some (snd e), A' @ filter ?al (e # ?B2) @ R)"
              "filter ?al A' = filter ?al A"
          by blast
        have "Suc (length A + length ?B2) = ?n" using lenB2 snoc by simp
        then have "scan_refs lv k (Suc ?n) ?L = (Some (snd e), A' @ filter ?al (e # ?B2) @ R)"
          using st r A'(1) by (simp only:)
        moreover have "filter ?al (e # ?B2) = filter ?al (e # B)"
          using nalb snoc by (simp add: filter_remove1_dead)
        ultimately have "scan_refs lv k (Suc ?n) ?L = (Some (snd e), A' @ filter ?al (e # B) @ R)"
          by (simp only:)
        moreover have "distinct (A @ e # B) \<longrightarrow> A' = A" using inB snoc by auto
        ultimately show ?thesis using A'(2) by blast
      next
        case fresh
        have r: "remove1 b ?L = A @ e # B1 @ R"
          using fresh bne snoc by (simp add: remove1_append)
        have lt: "length A + length B1 < length A + length B" using snoc by simp
        from less.hyps[OF lt nhB1, of R] obtain A' where
          A': "scan_refs lv k (Suc (length A + length B1)) (A @ e # B1 @ R)
                 = (Some (snd e), A' @ filter ?al (e # B1) @ R)"
              "filter ?al A' = filter ?al A" "distinct (A @ e # B1) \<longrightarrow> A' = A"
          by blast
        have "Suc (length A + length B1) = ?n" using snoc by simp
        then have "scan_refs lv k (Suc ?n) ?L = (Some (snd e), A' @ filter ?al (e # B1) @ R)"
          using st r A'(1) by (simp only:)
        moreover have "filter ?al (e # B1) = filter ?al (e # B)"
          using nalb snoc by simp
        ultimately have "scan_refs lv k (Suc ?n) ?L = (Some (snd e), A' @ filter ?al (e # B) @ R)"
          by (simp only:)
        moreover have "distinct (A @ e # B) \<longrightarrow> A' = A"
          using snoc A'(3) by simp
        ultimately show ?thesis using A'(2) by blast
      qed
    qed
  qed
qed

text \<open>The two cases for a whole list.\<close>

lemma scan_refs_all_miss:
  assumes "\<forall>e\<in>set L. \<not> cache_hit lv k e"
  shows "scan_refs lv k (length L) L = (None, filter (alive lv) L)"
  using scan_refs_miss[of "length L" L lv k] assms by simp

lemma scan_refs_last_hit:
  assumes "cache_hit lv k e" and "\<forall>b\<in>set B. \<not> cache_hit lv k b"
  shows "\<exists>A'. scan_refs lv k (length (A @ e # B)) (A @ e # B)
               = (Some (snd e), A' @ filter (alive lv) (e # B))
             \<and> filter (alive lv) A' = filter (alive lv) A
             \<and> (distinct (A @ e # B) \<longrightarrow> A' = A)"
  using scan_refs_hit[OF assms, of A "[]"] by simp

lemma scan_refs_keeps_alive:
  "filter (alive lv) (snd (scan_refs lv k (length L) L)) = filter (alive lv) L"
proof (cases "\<exists>e\<in>set L. cache_hit lv k e")
  case False
  then show ?thesis by (simp add: scan_refs_all_miss)
next
  case True
  then obtain A e B where sp: "L = A @ e # B" "cache_hit lv k e" "\<forall>b\<in>set B. \<not> cache_hit lv k b"
    using split_list_last_prop[of L "cache_hit lv k"] by blast
  from scan_refs_last_hit[OF sp(2,3), of A] obtain A' where
    "scan_refs lv k (length L) L = (Some (snd e), A' @ filter (alive lv) (e # B))"
    "filter (alive lv) A' = filter (alive lv) A"
    using sp(1) by blast
  then show ?thesis using sp(1) by simp
qed

lemma map_of_rev_filter_alive:
  "lv x \<Longrightarrow> map_of (rev (filter (alive lv) L)) x = map_of (rev L) x"
  by (induction L) (auto simp add: alive_def map_add_def split: option.splits)

lemma scan_refs_lookup:
  assumes "lv x"
  shows "fst (scan_refs lv (PyObj x) (length L) L) = map_of (rev L) x"
proof (cases "\<exists>e\<in>set L. cache_hit lv (PyObj x) e")
  case False
  then have "\<forall>e\<in>set L. fst e \<noteq> x" using assms by (auto simp add: cache_hit_obj_iff)
  then have "map_of (rev L) x = None" by (auto simp add: map_of_eq_None_iff)
  then show ?thesis using False by (simp add: scan_refs_all_miss)
next
  case True
  then obtain A e B where sp: "L = A @ e # B" "cache_hit lv (PyObj x) e"
      "\<forall>b\<in>set B. \<not> cache_hit lv (PyObj x) b"
    using split_list_last_prop[of L "cache_hit lv (PyObj x)"] by blast
  from scan_refs_last_hit[OF sp(2,3), of A] sp(1)
  have res: "fst (scan_refs lv (PyObj x) (length L) L) = Some (snd e)" by auto
  have ex: "fst e = x" using sp(2) by (simp add: cache_hit_obj_iff)
  have "\<forall>b\<in>set B. fst b \<noteq> x" using sp(3) assms by (auto simp add: cache_hit_obj_iff)
  then have "map_of (rev B) x = None" by (auto simp add: map_of_eq_None_iff)
  then have "map_of (rev L) x = Some (snd e)"
    using sp(1) ex by (cases e) (simp add: map_add_def)
  then show ?thesis using res by simp
qed

section \<open>\<open>_check_cache\<close> and \<open>_check_cache_or_convert\<close>\<close>

lemma check_cache_scan:
  assumes "first_of_tuple img = Inr key"
  shows "check_cache env img s =
         (Inr (fst (scan_refs (live env) key (length (weak_image_refs s)) (weak_image_refs s))),
          s\<lparr>weak_image_refs :=
               snd (scan_refs (live env) key (length (weak_image_refs s)) (weak_image_refs s))\<rparr>)"
  using assms by (simp add: check_cache_def split: prod.splits)

lemma check_cache_raises:
  assumes "first_of_tuple img = Inl err"
  shows "check_cache env img s = (Inl err, s)"
  using assms by (simp add: check_cache_def)

text \<open>The three ways a cached call can go, in terms of the scan.\<close>

lemma resolve_cached_hit:
  assumes "first_of_tuple img = Inr key"
    and "fst (scan_refs (live env) key (length (weak_image_refs s)) (weak_image_refs s)) = Some p"
  shows "check_cache_or_convert env img True s =
         (Inr p, s\<lparr>weak_image_refs :=
               snd (scan_refs (live env) key (length (weak_image_refs s)) (weak_image_refs s))\<rparr>)"
  using assms by (simp add: check_cache_or_convert_def check_cache_scan)

lemma resolve_cached_miss:
  assumes "first_of_tuple img = Inr key"
    and "fst (scan_refs (live env) key (length (weak_image_refs s)) (weak_image_refs s)) = None"
  shows "check_cache_or_convert env img True s =
         (let L1 = snd (scan_refs (live env) key (length (weak_image_refs s)) (weak_image_refs s));
              calls = converter_calls s @ [img]
          in case to_pimage env img of
               Inl err \<Rightarrow> (Inl err, s\<lparr>weak_image_refs := L1, converter_calls := calls\<rparr>)
             | Inr pimage \<Rightarrow>
                 (case weakref env key of
                    Inl err \<Rightarrow> (Inl err, s\<lparr>weak_image_refs := L1, converter_calls := calls\<rparr>)
                  | Inr r \<Rightarrow> (Inr pimage,
                       s\<lparr>weak_image_refs := L1 @ [(r, pimage)], converter_calls := calls\<rparr>)))"
  using assms
  by (simp add: check_cache_or_convert_def check_cache_scan store_cache_def Let_def
           split: sum.splits)

lemma resolve_uncached:
  "check_cache_or_convert env img False s =
     (case to_pimage env img of
        Inl err \<Rightarrow> (Inl err, s\<lparr>converter_calls := converter_calls s @ [img]\<rparr>)
      | Inr pimage \<Rightarrow> (Inr pimage, s\<lparr>converter_calls := converter_calls s @ [img]\<rparr>))"
  by (simp add: check_cache_or_convert_def Let_def split: sum.splits)

lemma resolve_cached_raises:
  assumes "first_of_tuple img = Inl err"
  shows "check_cache_or_convert env img True s = (Inl err, s)"
  using assms by (simp add: check_cache_or_convert_def check_cache_raises)

lemma weakref_Inr: "weakref env key = Inr r \<Longrightarrow> key = PyObj r"
  by (cases key) (simp_all split: if_splits)

text \<open>What a resolving call can do to the list: shorten it by expired entries, and append.\<close>

lemma resolve_refs_cases:
  fixes s :: "('a, 'p) image_mixin"
  defines "L \<equiv> weak_image_refs s"
  shows "weak_image_refs (snd (check_cache_or_convert env img cache s)) = L
       \<or> (\<exists>key. cache \<and> first_of_tuple img = Inr key
            \<and> weak_image_refs (snd (check_cache_or_convert env img cache s))
                = snd (scan_refs (live env) key (length L) L))
       \<or> (\<exists>a p. cache \<and> first_of_tuple img = Inr (PyObj a)
            \<and> fst (scan_refs (live env) (PyObj a) (length L) L) = None
            \<and> weak_image_refs (snd (check_cache_or_convert env img cache s))
                = snd (scan_refs (live env) (PyObj a) (length L) L) @ [(a, p)])"
proof (cases cache)
  case False
  then show ?thesis by (simp add: resolve_uncached L_def split: sum.splits)
next
  case True
  show ?thesis
  proof (cases "first_of_tuple img")
    case (Inl err)
    then show ?thesis using True by (simp add: resolve_cached_raises L_def)
  next
    case (Inr key)
    show ?thesis
    proof (cases "fst (scan_refs (live env) key (length L) L)")
      case (Some p)
      then show ?thesis using True Inr resolve_cached_hit[of img key env s p]
        by (simp add: L_def)
    next
      case None
      note miss = resolve_cached_miss[of img key env s]
      show ?thesis
      proof (cases "to_pimage env img")
        case (Inl err)
        then show ?thesis using True Inr None miss by (simp add: L_def Let_def)
      next
        case conv: (Inr pimage)
        show ?thesis
        proof (cases "weakref env key")
          case (Inl err)
          then show ?thesis using True Inr None miss conv by (simp add: L_def Let_def)
        next
          case wr: (Inr r)
          then have "key = PyObj r" by (rule weakref_Inr)
          then show ?thesis using True Inr None miss conv wr by (simp add: L_def Let_def)
        qed
      qed
    qed
  qed
qed

section \<open>Sequences of calls\<close>

lemma scan_refs_None_iff:
  "fst (scan_refs lv k (length L) L) = None \<longleftrightarrow> (\<forall>e\<in>set L. \<not> cache_hit lv k e)"
proof
  assume none: "fst (scan_refs lv k (length L) L) = None"
  show "\<forall>e\<in>set L. \<not> cache_hit lv k e"
  proof (rule ccontr)
    assume "\<not> (\<forall>e\<in>set L. \<not> cache_hit lv k e)"
    then obtain A e B where sp: "L = A @ e # B" "cache_hit lv k e"
        "\<forall>b\<in>set B. \<not> cache_hit lv k b"
      using split_list_last_prop[of L "cache_hit lv k"] by blast
    from scan_refs_last_hit[OF sp(2,3), of A] sp(1)
    have "fst (scan_refs lv k (length L) L) = Some (snd e)" by auto
    then show False using none by simp
  qed
next
  assume "\<forall>e\<in>set L. \<not> cache_hit lv k e"
  then show "fst (scan_refs lv k (length L) L) = None" by (simp add: scan_refs_all_miss)
qed

lemma scan_refs_miss_result:
  assumes "fst (scan_refs lv k (length L) L) = None"
  shows "snd (scan_refs lv k (length L) L) = filter (alive lv) L"
  using assms by (simp add: scan_refs_None_iff scan_refs_all_miss)

lemma scan_refs_miss_no_entry:
  assumes "fst (scan_refs lv (PyObj a) (length L) L) = None"
  shows "\<forall>e\<in>set (snd (scan_refs lv (PyObj a) (length L) L)). fst e \<noteq> a"
proof -
  have "\<forall>e\<in>set L. \<not> cache_hit lv (PyObj a) e" using assms by (simp add: scan_refs_None_iff)
  then have "\<forall>e\<in>set (filter (alive lv) L). fst e \<noteq> a"
    by (auto simp add: cache_hit_obj_iff alive_def)
  then show ?thesis using assms by (simp add: scan_refs_miss_result)
qed

lemma scan_refs_distinct_shape:
  assumes "distinct L"
  shows "\<exists>A C. L = A @ C \<and> snd (scan_refs lv k (length L) L) = A @ filter (alive lv) C"
proof (cases "\<forall>e\<in>set L. \<not> cache_hit lv k e")
  case True
  then have "snd (scan_refs lv k (length L) L) = [] @ filter (alive lv) L"
    by (simp add: scan_refs_all_miss)
  then show ?thesis by (intro exI[of _ "[]"] exI[of _ L]) simp
next
  case False
  then obtain A e B where sp: "L = A @ e # B" "cache_hit lv k e"
      "\<forall>b\<in>set B. \<not> cache_hit lv k b"
    using split_list_last_prop[of L "cache_hit lv k"] by blast
  from scan_refs_last_hit[OF sp(2,3), of A] sp(1) assms
  have "snd (scan_refs lv k (length L) L) = A @ filter (alive lv) (e # B)" by auto
  then show ?thesis using sp(1) by blast
qed

lemma distinct_map_fst_filter_tail:
  assumes "distinct (map fst (A @ C))"
  shows "distinct (map fst (A @ filter P C))"
  using assms by (auto simp add: distinct_map_filter)

lemma scan_refs_distinct:
  assumes "distinct (map fst L)"
  shows "distinct (map fst (snd (scan_refs lv k (length L) L)))"
proof -
  have "distinct L" using assms by (simp add: distinct_map)
  from scan_refs_distinct_shape[OF this, of lv k] obtain A C where
    "L = A @ C" "snd (scan_refs lv k (length L) L) = A @ filter (alive lv) C" by blast
  then show ?thesis using assms distinct_map_fst_filter_tail[of A C "alive lv"] by simp
qed

lemma resolve_distinct:
  assumes "distinct (map fst (weak_image_refs s))"
  shows "distinct (map fst (weak_image_refs (snd (check_cache_or_convert env img cache s))))"
proof -
  let ?L = "weak_image_refs s"
  let ?L' = "weak_image_refs (snd (check_cache_or_convert env img cache s))"
  from resolve_refs_cases[of env img cache s]
  consider (same) "?L' = ?L"
    | (scanned) key where "?L' = snd (scan_refs (live env) key (length ?L) ?L)"
    | (appended) a p where "fst (scan_refs (live env) (PyObj a) (length ?L) ?L) = None"
        "?L' = snd (scan_refs (live env) (PyObj a) (length ?L) ?L) @ [(a, p)]"
    by blast
  then show ?thesis
  proof cases
    case same
    then show ?thesis using assms by simp
  next
    case scanned
    then show ?thesis using scan_refs_distinct[OF assms] by simp
  next
    case appended
    have "a \<notin> fst ` set (snd (scan_refs (live env) (PyObj a) (length ?L) ?L))"
      using scan_refs_miss_no_entry[OF appended(1)] by auto
    then show ?thesis using appended(2) scan_refs_distinct[OF assms, of "live env" "PyObj a"]
      by simp
  qed
qed

lemma apply_op_distinct:
  assumes "distinct (map fst (weak_image_refs s))"
  shows "distinct (map fst (weak_image_refs (apply_op c s)))"
  using assms by (cases c) (simp_all add: resolve_distinct flush_image_cache_def)

lemma run_ops_distinct:
  "distinct (map fst (weak_image_refs s)) \<Longrightarrow> distinct (map fst (weak_image_refs (run_ops cs s)))"
  by (induction cs arbitrary: s) (simp_all add: apply_op_distinct)

lemma distinct_map_fst_count:
  assumes "distinct (map fst L)"
  shows "length (filter (\<lambda>e. fst e = a \<and> P e) L) \<le> 1"
  using assms
proof (induction L)
  case Nil
  then show ?case by simp
next
  case (Cons e L)
  show ?case
  proof (cases "fst e = a")
    case True
    then have "a \<notin> fst ` set L" using Cons.prems by simp
    then have "\<forall>x\<in>set L. fst x \<noteq> a" by (metis imageI)
    then have "filter (\<lambda>e. fst e = a \<and> P e) L = []" by (auto simp add: filter_empty_conv)
    then show ?thesis by simp
  next
    case False
    then show ?thesis using Cons by simp
  qed
qed

section \<open>The entry of an object that stays alive\<close>

text \<open>
  \<open>map_of (rev L) x\<close> is the image of the newest entry of \<open>L\<close> whose referent is \<open>x\<close>.
\<close>

lemma scan_refs_keeps_newest:
  assumes "lv x"
  shows "map_of (rev (snd (scan_refs lv k (length L) L))) x = map_of (rev L) x"
proof -
  have "map_of (rev (snd (scan_refs lv k (length L) L))) x
        = map_of (rev (filter (alive lv) (snd (scan_refs lv k (length L) L)))) x"
    using assms by (simp add: map_of_rev_filter_alive)
  also have "\<dots> = map_of (rev (filter (alive lv) L)) x"
    by (simp only: scan_refs_keeps_alive)
  also have "\<dots> = map_of (rev L) x"
    using assms by (simp add: map_of_rev_filter_alive)
  finally show ?thesis .
qed


lemma entry_found:
  assumes inv: "map_of (rev (weak_image_refs s)) x = Some p" and lx: "live env x"
    and key: "first_of_tuple img = Inr (PyObj x)"
  shows "check_cache_or_convert env img True s =
         (Inr p, s\<lparr>weak_image_refs :=
            snd (scan_refs (live env) (PyObj x) (length (weak_image_refs s)) (weak_image_refs s))\<rparr>)"
proof -
  have "fst (scan_refs (live env) (PyObj x) (length (weak_image_refs s)) (weak_image_refs s)) = Some p"
    using lx scan_refs_lookup[of "live env" x "weak_image_refs s"] inv by simp
  then show ?thesis using key by (rule resolve_cached_hit[rotated])
qed

lemma entry_after_success:
  assumes ok: "check_cache_or_convert env img True s = (Inr p, s1)"
    and key: "first_of_tuple img = Inr (PyObj x)"
  shows "map_of (rev (weak_image_refs s1)) x = Some p"
proof -
  let ?L = "weak_image_refs s"
  let ?sc = "scan_refs (live env) (PyObj x) (length ?L) ?L"
  show ?thesis
  proof (cases "fst ?sc")
    case (Some q)
    from resolve_cached_hit[OF key Some] ok
    have eq: "q = p" "s1 = s\<lparr>weak_image_refs := snd ?sc\<rparr>" by simp_all
    have lx: "live env x"
    proof (rule ccontr)
      assume "\<not> live env x"
      then have "\<forall>e\<in>set ?L. \<not> cache_hit (live env) (PyObj x) e"
        by (auto simp add: cache_hit_obj_iff)
      then have "fst ?sc = None" by (simp add: scan_refs_None_iff)
      then show False using Some by simp
    qed
    have "map_of (rev ?L) x = Some p" using lx scan_refs_lookup[of "live env" x ?L] Some eq(1) by simp
    then show ?thesis using eq(2) lx scan_refs_keeps_newest[of "live env" x "PyObj x" ?L] by simp
  next
    case None
    note miss = resolve_cached_miss[OF key None]
    show ?thesis
    proof (cases "to_pimage env img")
      case (Inl err)
      then show ?thesis using miss ok by (simp add: Let_def)
    next
      case conv: (Inr pimage)
      show ?thesis
      proof (cases "weakref env (PyObj x)")
        case (Inl err)
        then show ?thesis using miss ok conv by (simp add: Let_def)
      next
        case (Inr r)
        then have "r = x" using weakref_Inr[of env "PyObj x" r] by simp
        then show ?thesis using miss ok conv Inr by (auto simp add: Let_def)
      qed
    qed
  qed
qed



lemmas cache_eval =
  check_cache_or_convert_def check_cache_def store_cache_def scan_refs.simps(2) deref_def
  init_mixin_def flush_image_cache_def env_ex_def Let_def

section \<open>Claims about the cache lookup\<close>

text \<open>
  Claim C2.  For every cache list and every lookup key, \<open>_check_cache\<close> scans the entries
  from the newest to the oldest.  An entry counts as a hit when the value its weak reference
  yields is identical to the key (a tuple argument is keyed by its first element).  If no
  entry is a hit, the lookup returns \<open>None\<close> and the list that remains consists of the
  entries that are still alive, in their order.  If there is a hit, let \<open>e\<close> be the newest
  one, \<open>B\<close> the entries appended after it and \<open>A\<close> the entries before it: the lookup
  returns the image of \<open>e\<close> (so the most recently appended entry of an identity wins), every
  expired entry of \<open>B\<close> has been removed although the hit came later in the scan, and the
  scan stopped at \<open>e\<close>: the alive entries of \<open>A\<close> are untouched, and when no pair occurs
  twice in the list \<open>A\<close> is untouched altogether.  For the key \<open>None\<close> the value identical
  to the key is the \<open>None\<close> an expired reference yields, so the hit is the newest expired
  entry, which is removed and whose image is returned.
\<close>

theorem check_cache_reverse_scan:
  assumes "first_of_tuple img = Inr key"
  shows "((\<forall>e\<in>set (weak_image_refs s). \<not> cache_hit (live env) key e) \<longrightarrow>
            check_cache env img s =
              (Inr None, s\<lparr>weak_image_refs := filter (alive (live env)) (weak_image_refs s)\<rparr>))
       \<and> (\<forall>A e B. weak_image_refs s = A @ e # B \<and> cache_hit (live env) key e
              \<and> (\<forall>b\<in>set B. \<not> cache_hit (live env) key b) \<longrightarrow>
            (\<exists>A'. check_cache env img s =
                     (Inr (Some (snd e)),
                      s\<lparr>weak_image_refs := A' @ filter (alive (live env)) (e # B)\<rparr>)
                 \<and> filter (alive (live env)) A' = filter (alive (live env)) A
                 \<and> (distinct (weak_image_refs s) \<longrightarrow> A' = A)))"
proof (intro conjI allI impI)
  assume "\<forall>e\<in>set (weak_image_refs s). \<not> cache_hit (live env) key e"
  then show "check_cache env img s =
              (Inr None, s\<lparr>weak_image_refs := filter (alive (live env)) (weak_image_refs s)\<rparr>)"
    using assms by (simp add: check_cache_scan scan_refs_all_miss)
next
  fix A e B
  assume h: "weak_image_refs s = A @ e # B \<and> cache_hit (live env) key e
              \<and> (\<forall>b\<in>set B. \<not> cache_hit (live env) key b)"
  then have hit: "cache_hit (live env) key e" and nob: "\<forall>b\<in>set B. \<not> cache_hit (live env) key b"
    and sp: "weak_image_refs s = A @ e # B" by simp_all
  from scan_refs_last_hit[OF hit nob, of A] obtain A' where
    A': "scan_refs (live env) key (length (A @ e # B)) (A @ e # B)
           = (Some (snd e), A' @ filter (alive (live env)) (e # B))"
        "filter (alive (live env)) A' = filter (alive (live env)) A"
        "distinct (A @ e # B) \<longrightarrow> A' = A"
    by blast
  have "check_cache env img s =
          (Inr (Some (snd e)), s\<lparr>weak_image_refs := A' @ filter (alive (live env)) (e # B)\<rparr>)"
    using assms sp A'(1) by (simp add: check_cache_scan)
  then show "\<exists>A'. check_cache env img s =
                     (Inr (Some (snd e)),
                      s\<lparr>weak_image_refs := A' @ filter (alive (live env)) (e # B)\<rparr>)
                 \<and> filter (alive (live env)) A' = filter (alive (live env)) A
                 \<and> (distinct (weak_image_refs s) \<longrightarrow> A' = A)"
    using A'(2,3) sp by auto
qed

text \<open>
  An instance: objects 1 and 2 are alive, 3 and 4 have expired; the lookup of the tuple
  \<open>(2, None)\<close> removes the entries of 4 and 3, stops at the entry of 2 and leaves the entry
  of 1 alone.
\<close>

theorem check_cache_reverse_scan_witness:
  "first_of_tuple (PyTuple [PyObj (2::nat), PyNone]) = Inr (PyObj 2)
   \<and> check_cache \<lparr>live = (\<lambda>a. a \<le> 2), weakrefable = (\<lambda>a. True), to_pimage = (\<lambda>v. Inl ConversionError)\<rparr>
        (PyTuple [PyObj (2::nat), PyNone])
        \<lparr>weak_image_refs = [(1, 10::nat), (2, 20), (3, 30), (4, 40)], converter_calls = []\<rparr>
      = (Inr (Some 20), \<lparr>weak_image_refs = [(1, 10), (2, 20)], converter_calls = []\<rparr>)"
proof -
  let ?env = "\<lparr>live = (\<lambda>a::nat. a \<le> 2), weakrefable = (\<lambda>a. True),
                to_pimage = (\<lambda>v. Inl ConversionError :: error + nat)\<rparr>"
  let ?s = "\<lparr>weak_image_refs = [(1::nat, 10::nat), (2, 20), (3, 30), (4, 40)],
              converter_calls = [] :: nat pyval list\<rparr>"
  have k: "first_of_tuple (PyTuple [PyObj (2::nat), PyNone]) = Inr (PyObj 2)" by simp
  have sp: "weak_image_refs ?s = [(1, 10)] @ (2, 20) # [(3, 30), (4, 40)]
            \<and> cache_hit (live ?env) (PyObj 2) (2, 20)
            \<and> (\<forall>b\<in>set [(3::nat, 30::nat), (4, 40)]. \<not> cache_hit (live ?env) (PyObj 2) b)"
    by (simp add: cache_hit_def deref_def)
  have d: "distinct (weak_image_refs ?s)" by simp
  from check_cache_reverse_scan[OF k, of ?s ?env] sp d
  have "check_cache ?env (PyTuple [PyObj 2, PyNone]) ?s
        = (Inr (Some 20), ?s\<lparr>weak_image_refs := [(1, 10)] @ filter (alive (live ?env)) ((2, 20) # [(3, 30), (4, 40)])\<rparr>)"
    by (metis snd_conv)
  then show ?thesis using k by (simp add: alive_def)
qed

text \<open>
  Claim C4.  Start from the empty cache and apply any sequence of operations (cached and
  uncached conversions, each in surroundings of its own, and flushes).  In the list that
  results no two entries have the same referent, so for every identity and whatever is alive
  at that moment there is at most one live entry.  Moreover a further conversion call
  in that state changes the list in one of three ways only: not at all, by the removal of
  entries during the lookup scan, or by appending one entry \<open>(a, p)\<close> after a lookup of the
  object \<open>a\<close> that returned \<open>None\<close>, in which case the scanned list holds no entry for
  \<open>a\<close>.
\<close>

theorem weak_image_cache_one_entry_per_identity:
  fixes ops :: "('a, 'p) cache_op list"
  defines "s \<equiv> run_ops ops init_mixin"
  shows "distinct (map fst (weak_image_refs s))
       \<and> (\<forall>lv a. length (filter (\<lambda>e. fst e = a \<and> alive lv e) (weak_image_refs s)) \<le> 1)
       \<and> (\<forall>env img cache.
             weak_image_refs (snd (check_cache_or_convert env img cache s)) = weak_image_refs s
           \<or> (\<exists>key. cache \<and> first_of_tuple img = Inr key
                \<and> weak_image_refs (snd (check_cache_or_convert env img cache s))
                    = weak_image_refs (snd (check_cache env img s)))
           \<or> (\<exists>a p. cache \<and> first_of_tuple img = Inr (PyObj a)
                \<and> fst (check_cache env img s) = Inr None
                \<and> (\<forall>e\<in>set (weak_image_refs (snd (check_cache env img s))). fst e \<noteq> a)
                \<and> weak_image_refs (snd (check_cache_or_convert env img cache s))
                    = weak_image_refs (snd (check_cache env img s)) @ [(a, p)]))"
proof (intro conjI allI)
  have "distinct (map fst (weak_image_refs (init_mixin :: ('a, 'p) image_mixin)))"
    by (simp add: init_mixin_def)
  then show d: "distinct (map fst (weak_image_refs s))"
    unfolding s_def by (rule run_ops_distinct)
  show "length (filter (\<lambda>e. fst e = a \<and> alive lv e) (weak_image_refs s)) \<le> 1" for lv a
    using d by (rule distinct_map_fst_count)
  show "weak_image_refs (snd (check_cache_or_convert env img cache s)) = weak_image_refs s
           \<or> (\<exists>key. cache \<and> first_of_tuple img = Inr key
                \<and> weak_image_refs (snd (check_cache_or_convert env img cache s))
                    = weak_image_refs (snd (check_cache env img s)))
           \<or> (\<exists>a p. cache \<and> first_of_tuple img = Inr (PyObj a)
                \<and> fst (check_cache env img s) = Inr None
                \<and> (\<forall>e\<in>set (weak_image_refs (snd (check_cache env img s))). fst e \<noteq> a)
                \<and> weak_image_refs (snd (check_cache_or_convert env img cache s))
                    = weak_image_refs (snd (check_cache env img s)) @ [(a, p)])"
    for env img cache
  proof -
    let ?L = "weak_image_refs s"
    let ?L' = "weak_image_refs (snd (check_cache_or_convert env img cache s))"
    from resolve_refs_cases[of env img cache s]
    consider (same) "?L' = ?L"
      | (scanned) key where "cache" "first_of_tuple img = Inr key"
          "?L' = snd (scan_refs (live env) key (length ?L) ?L)"
      | (appended) a p where "cache" "first_of_tuple img = Inr (PyObj a)"
          "fst (scan_refs (live env) (PyObj a) (length ?L) ?L) = None"
          "?L' = snd (scan_refs (live env) (PyObj a) (length ?L) ?L) @ [(a, p)]"
      by blast
    then show ?thesis
    proof cases
      case same
      then show ?thesis by simp
    next
      case scanned
      then have "?L' = weak_image_refs (snd (check_cache env img s))"
        by (simp add: check_cache_scan)
      then show ?thesis using scanned(1,2) by blast
    next
      case appended
      have 1: "fst (check_cache env img s) = Inr None"
        using appended(2,3) by (simp add: check_cache_scan)
      have 2: "weak_image_refs (snd (check_cache env img s))
               = snd (scan_refs (live env) (PyObj a) (length ?L) ?L)"
        using appended(2) by (simp add: check_cache_scan)
      have 3: "\<forall>e\<in>set (weak_image_refs (snd (check_cache env img s))). fst e \<noteq> a"
        using scan_refs_miss_no_entry[OF appended(3)] 2 by simp
      have 4: "?L' = weak_image_refs (snd (check_cache env img s)) @ [(a, p)]"
        using appended(4) 2 by simp
      show ?thesis using appended(1,2) 1 3 4 by blast
    qed
  qed
qed

text \<open>
  An instance: objects 1 and 2 are converted and cached, 1 is looked up again, then 2 expires
  and object 3 is converted; the entry of 2 is dropped by that scan.
\<close>

theorem weak_image_cache_one_entry_per_identity_witness:
  "weak_image_refs (run_ops [Resolve (env_ex (\<lambda>a. True)) (PyObj 1) True,
                             Resolve (env_ex (\<lambda>a. True)) (PyObj 2) True,
                             Resolve (env_ex (\<lambda>a. True)) (PyObj 1) True,
                             Resolve (env_ex (\<lambda>a. a \<noteq> 2)) (PyObj 3) True] init_mixin)
     = [(1, 10), (3, 30)]
   \<and> distinct (map fst (weak_image_refs (run_ops [Resolve (env_ex (\<lambda>a. True)) (PyObj 1) True,
                             Resolve (env_ex (\<lambda>a. True)) (PyObj 2) True,
                             Resolve (env_ex (\<lambda>a. True)) (PyObj 1) True,
                             Resolve (env_ex (\<lambda>a. a \<noteq> 2)) (PyObj 3) True] init_mixin)))"
proof -
  let ?ops = "[Resolve (env_ex (\<lambda>a. True)) (PyObj 1) True,
               Resolve (env_ex (\<lambda>a. True)) (PyObj 2) True,
               Resolve (env_ex (\<lambda>a. True)) (PyObj 1) True,
               Resolve (env_ex (\<lambda>a. a \<noteq> 2)) (PyObj 3) True]"
  have "weak_image_refs (run_ops ?ops init_mixin) = [(1, 10), (3, 30)]"
    by (simp add: cache_eval)
  moreover have "distinct (map fst (weak_image_refs (run_ops ?ops init_mixin)))"
    using weak_image_cache_one_entry_per_identity[of ?ops] by (rule conjunct1)
  ultimately show ?thesis by (rule conjI)
qed



text \<open>
  Claim C3.  Let a cached call with the tuple \<open>(x, extra...)\<close> return the image \<open>p\<close>.  A
  cached call with the tuple \<open>(x, other...)\<close>, made while the object \<open>x\<close> is alive, returns
  the same \<open>p\<close> without invoking the converter, whatever the other elements of the two
  tuples are: the entry stored by the first call is keyed by \<open>x\<close> alone and is the one the
  second call finds.
\<close>

theorem tuple_calls_share_cache_entry:
  assumes first: "check_cache_or_convert env1 (PyTuple (PyObj x # extra)) True s0 = (Inr p, s1)"
    and lx: "live env2 x"
  shows "fst (check_cache_or_convert env2 (PyTuple (PyObj x # other)) True s1) = Inr p
       \<and> converter_calls (snd (check_cache_or_convert env2 (PyTuple (PyObj x # other)) True s1))
           = converter_calls s1
       \<and> map_of (rev (weak_image_refs s1)) x = Some p"
proof -
  have inv: "map_of (rev (weak_image_refs s1)) x = Some p"
    using first by (rule entry_after_success) simp
  then have "check_cache_or_convert env2 (PyTuple (PyObj x # other)) True s1 =
         (Inr p, s1\<lparr>weak_image_refs :=
            snd (scan_refs (live env2) (PyObj x) (length (weak_image_refs s1))
                   (weak_image_refs s1))\<rparr>)"
    using lx by (rule entry_found) simp
  then show ?thesis using inv by simp
qed

text \<open>
  An instance: the tuple \<open>(1, None, None)\<close> is converted into the empty cache (image 12);
  the tuple \<open>(1, 7)\<close>, which the converter alone would turn into image 11, then yields the
  cached image 12.
\<close>

theorem tuple_calls_share_cache_entry_witness:
  "check_cache_or_convert (env_ex (\<lambda>a. True)) (PyTuple [PyObj 1, PyNone, PyNone]) True init_mixin
     = (Inr 12, \<lparr>weak_image_refs = [(1, 12)],
                  converter_calls = [PyTuple [PyObj 1, PyNone, PyNone]]\<rparr>)
   \<and> converter_ex (PyTuple [PyObj 1, PyObj 7]) = Inr 11
   \<and> fst (check_cache_or_convert (env_ex (\<lambda>a. a = 1)) (PyTuple [PyObj 1, PyObj 7]) True
        \<lparr>weak_image_refs = [(1, 12)], converter_calls = [PyTuple [PyObj 1, PyNone, PyNone]]\<rparr>)
     = Inr 12
   \<and> converter_calls (snd (check_cache_or_convert (env_ex (\<lambda>a. a = 1)) (PyTuple [PyObj 1, PyObj 7]) True
        \<lparr>weak_image_refs = [(1, 12)], converter_calls = [PyTuple [PyObj 1, PyNone, PyNone]]\<rparr>))
     = [PyTuple [PyObj 1, PyNone, PyNone]]"
proof -
  let ?s1 = "\<lparr>weak_image_refs = [(1::nat, 12::nat)],
               converter_calls = [PyTuple [PyObj 1, PyNone, PyNone]]\<rparr>"
  have first: "check_cache_or_convert (env_ex (\<lambda>a. True)) (PyTuple (PyObj 1 # [PyNone, PyNone])) True
                 init_mixin = (Inr 12, ?s1)"
    by (simp add: cache_eval)
  have lx: "live (env_ex (\<lambda>a. a = 1)) 1" by (simp add: env_ex_def)
  from tuple_calls_share_cache_entry[OF first lx, of "[PyObj 7]"] first
  show ?thesis by simp
qed

section \<open>Claims about the sketch capture\<close>

lemma run_sketch_running:
  assumes "is_running w"
  shows "run_sketch env rend code wd ht safe_exec w
         = (Inr None, w\<lparr>stdout := stdout w @ [already_running_message]\<rparr>)"
  using assms by (simp add: run_sketch_def split: prod.splits)

text \<open>
  Claim C9.  When a sketch is marked running, \<open>_run_sketch\<close> returns \<open>None\<close> without
  raising and leaves the world as it was but for one printed line, the message; that holds
  for every renderer, cell text, size and flag and whatever the surroundings would have done,
  so nothing was executed and no directory or file appeared.  Each of the four magics
  then returns with that same world: no file written, nothing displayed, no further line
  printed, no variable bound.  (For \<open>py5draw\<close> this concerns the renderers it passes on;
  the others it rejects before the call.)
\<close>

theorem run_sketch_already_running:
  assumes "is_running w"
  shows "run_sketch env rend code wd ht safe_exec w
           = (Inr None, w\<lparr>stdout := stdout w @ [already_running_message]\<rparr>)
       \<and> py5drawpdf env args cell w
           = (Inr (), w\<lparr>stdout := stdout w @ [already_running_message]\<rparr>)
       \<and> py5drawdxf env args cell w
           = (Inr (), w\<lparr>stdout := stdout w @ [already_running_message]\<rparr>)
       \<and> py5drawsvg env args cell w
           = (Inr (), w\<lparr>stdout := stdout w @ [already_running_message]\<rparr>)
       \<and> (renderer args \<in> set [''HIDDEN'', ''JAVA2D'', ''P2D'', ''P3D''] \<longrightarrow>
            py5draw env args cell w
              = (Inr (), w\<lparr>stdout := stdout w @ [already_running_message]\<rparr>))"
  using assms
  by (auto simp add: run_sketch_running py5drawpdf_def py5drawdxf_def py5drawsvg_def py5draw_def)

text \<open>An instance: the running flag set, an unsafe \<open>py5draw\<close> with a file and a variable.\<close>

theorem run_sketch_already_running_witness:
  "is_running (world_ex\<lparr>is_running := True\<rparr>)
   \<and> run_sketch (sys_env_ex exec_raises) ''P2D'' ''rect(1, 2, 3, 4)'' ''100'' ''100'' False
        (world_ex\<lparr>is_running := True\<rparr>)
     = (Inr None, world_ex\<lparr>is_running := True, stdout := [already_running_message]\<rparr>)
   \<and> renderer args_ex = ''P2D''
   \<and> py5draw (sys_env_ex exec_raises) args_ex ''rect(1, 2, 3, 4)'' (world_ex\<lparr>is_running := True\<rparr>)
     = (Inr (), world_ex\<lparr>is_running := True, stdout := [already_running_message]\<rparr>)"
proof -
  have r: "is_running (world_ex\<lparr>is_running := True\<rparr>)" by simp
  have a: "renderer args_ex = ''P2D''" by (simp add: args_ex_def)
  from run_sketch_already_running[OF r, of "sys_env_ex exec_raises" "''P2D''" "''rect(1, 2, 3, 4)''"
      "''100''" "''100''" False args_ex "''rect(1, 2, 3, 4)''"] a r
  show ?thesis by (simp add: world_ex_def)
qed

text \<open>
  Claim C10.  When \<open>_run_sketch\<close> stops because a sketch is running, the namespace passed
  as \<open>user_ns\<close> is the one it was, in safe and in unsafe mode: no key added, none removed,
  no value changed.
\<close>

theorem run_sketch_already_running_keeps_namespace:
  assumes "is_running w"
  shows "user_ns (snd (run_sketch env rend code wd ht safe_exec w)) = user_ns w"
  using assms by (simp add: run_sketch_running)

theorem run_sketch_already_running_keeps_namespace_witness:
  "is_running (world_ex\<lparr>is_running := True\<rparr>)
   \<and> user_ns (snd (run_sketch (sys_env_ex exec_raises) ''P2D'' ''rect(1, 2, 3, 4)'' ''100'' ''100''
        False (world_ex\<lparr>is_running := True\<rparr>))) = [''x'' \<mapsto> Other ''1'']"
proof -
  have r: "is_running (world_ex\<lparr>is_running := True\<rparr>)" by simp
  from run_sketch_already_running_keeps_namespace[OF r, of "sys_env_ex exec_raises" "''P2D''"
      "''rect(1, 2, 3, 4)''" "''100''" "''100''" False] r
  show ?thesis by (simp add: world_ex_def)
qed

section \<open>The temporary directory and the temporary binding\<close>

lemma cleanup_removes:
  "d \<notin> dirs (cleanup d w)"
  "inside d p \<Longrightarrow> p \<notin> dirs (cleanup d w) \<and> files (cleanup d w) p = None"
  by (simp_all add: cleanup_def)

text \<open>Every path through \<open>_run_sketch\<close> past the running test ends with the clean-up.\<close>

lemma run_sketch_ends_with_cleanup:
  assumes "\<not> is_running w"
  shows "\<exists>w3 ns. snd (run_sketch env rend code wd ht safe_exec w)
                  = (cleanup (mkdtemp env (dirs w)) w3)\<lparr>user_ns := ns\<rparr>"
proof -
  obtain template suffix mode where sel: "select_template rend = (template, suffix, mode)"
    by (cases "select_template rend") auto
  let ?w1 = "if safe_exec then w else w\<lparr>user_ns := (user_ns w)(''_py5_user_ns'' \<mapsto> Namespace)\<rparr>"
  have d1: "dirs ?w1 = dirs w" by simp
  let ?d = "mkdtemp env (dirs w)"
  let ?prep = "if safe_exec then fix_triple_quote_str env (indent env code)
               else ''    exec('' @ dq @ dq @ dq @ escape_triple_quotes code @ dq @ dq @ dq
                      @ '', _py5_user_ns)''"
  obtain res w3 where body: "run_in_tempdir env template suffix mode rend wd ht ?prep ?d
         (?w1\<lparr>dirs := insert ?d (dirs ?w1)\<rparr>) = (res, w3)"
    by (cases "run_in_tempdir env template suffix mode rend wd ht ?prep ?d
         (?w1\<lparr>dirs := insert ?d (dirs ?w1)\<rparr>)") auto
  have same: "(cleanup ?d w3) = (cleanup ?d w3)\<lparr>user_ns := user_ns (cleanup ?d w3)\<rparr>" by simp
  show ?thesis
  proof (cases safe_exec)
    case True
    then have "snd (run_sketch env rend code wd ht safe_exec w) = cleanup ?d w3"
      using assms sel body by (simp add: run_sketch_def Let_def split: sum.splits)
    then show ?thesis using same by metis
  next
    case False
    then have "snd (run_sketch env rend code wd ht safe_exec w) = cleanup ?d w3
       \<or> snd (run_sketch env rend code wd ht safe_exec w)
           = (cleanup ?d w3)\<lparr>user_ns := (user_ns (cleanup ?d w3))(''_py5_user_ns'' := None)\<rparr>"
      using assms sel body by (simp add: run_sketch_def Let_def split: sum.splits)
    then show ?thesis using same by metis
  qed
qed

text \<open>
  Claim C6.  Whenever \<open>_run_sketch\<close> gets past the running test, the directory it creates
  for the script and the output file does not exist when the call is over, and neither does
  anything inside it; this holds for every behaviour of the execution and of the reading of
  the output file, raising or not.
\<close>

theorem temp_directory_removed:
  assumes "\<not> is_running w"
  shows "mkdtemp env (dirs w) \<notin> dirs (snd (run_sketch env rend code wd ht safe_exec w))
       \<and> (\<forall>p. inside (mkdtemp env (dirs w)) p \<longrightarrow>
             p \<notin> dirs (snd (run_sketch env rend code wd ht safe_exec w))
           \<and> files (snd (run_sketch env rend code wd ht safe_exec w)) p = None)"
proof -
  from run_sketch_ends_with_cleanup[OF assms, of env rend code wd ht safe_exec]
  obtain w3 ns where "snd (run_sketch env rend code wd ht safe_exec w)
                  = (cleanup (mkdtemp env (dirs w)) w3)\<lparr>user_ns := ns\<rparr>" by blast
  then show ?thesis by (simp add: cleanup_removes)
qed

lemmas sketch_eval =
  run_sketch_def run_in_tempdir_def select_template_def cleanup_def inside_def
  sys_env_ex_def world_ex_def exec_saves_def exec_raises_def Let_def

text \<open>
  An instance: the execution finds the directory and the script in place and saves a PNG;
  the call returns its bytes, and afterwards the directory is gone.
\<close>

theorem temp_directory_removed_witness:
  "\<not> is_running world_ex
   \<and> mkdtemp (sys_env_ex (exec_saves ''/tmp/tmpa/output.png'' ''PNG'')) (dirs world_ex) = ''/tmp/tmpa''
   \<and> fst (run_sketch (sys_env_ex (exec_saves ''/tmp/tmpa/output.png'' ''PNG'')) ''P2D''
             ''rect(1, 2, 3, 4)'' ''100'' ''100'' True world_ex) = Inr (Some (CBytes ''PNG''))
   \<and> ''/tmp/tmpa'' \<notin> dirs (snd (run_sketch (sys_env_ex (exec_saves ''/tmp/tmpa/output.png'' ''PNG''))
             ''P2D'' ''rect(1, 2, 3, 4)'' ''100'' ''100'' True world_ex))
   \<and> files (snd (run_sketch (sys_env_ex (exec_saves ''/tmp/tmpa/output.png'' ''PNG''))
             ''P2D'' ''rect(1, 2, 3, 4)'' ''100'' ''100'' True world_ex)) ''/tmp/tmpa/output.png'' = None"
proof -
  let ?env = "sys_env_ex (exec_saves ''/tmp/tmpa/output.png'' ''PNG'')"
  let ?w' = "snd (run_sketch ?env ''P2D'' ''rect(1, 2, 3, 4)'' ''100'' ''100'' True world_ex)"
  have nr: "\<not> is_running world_ex" by (simp add: world_ex_def)
  have d: "mkdtemp ?env (dirs world_ex) = ''/tmp/tmpa''" by (simp add: sys_env_ex_def)
  have ins: "inside ''/tmp/tmpa'' ''/tmp/tmpa/output.png''" by (simp add: inside_def)
  have res: "fst (run_sketch ?env ''P2D'' ''rect(1, 2, 3, 4)'' ''100'' ''100'' True world_ex)
             = Inr (Some (CBytes ''PNG''))"
    by (simp add: sketch_eval)
  note main = temp_directory_removed[OF nr, of ?env "''P2D''" "''rect(1, 2, 3, 4)''" "''100''"
      "''100''" True]
  have a: "''/tmp/tmpa'' \<notin> dirs ?w'" using main d by simp
  have b: "files ?w' ''/tmp/tmpa/output.png'' = None" using main d ins by simp
  show ?thesis using nr d res a b by simp
qed

text \<open>
  In unsafe mode a call that returns has removed the binding \<open>_py5_user_ns\<close> (or found it
  removed already, and then raises \<open>KeyError\<close>).
\<close>

lemma unsafe_binding_removed_on_return:
  assumes "\<not> is_running w"
    and "fst (run_sketch env rend code wd ht False w) = Inr res"
  shows "user_ns (snd (run_sketch env rend code wd ht False w)) ''_py5_user_ns'' = None"
proof -
  obtain template suffix mode where sel: "select_template rend = (template, suffix, mode)"
    by (cases "select_template rend") auto
  show ?thesis
    using assms sel
    by (auto simp add: run_sketch_def Let_def split: prod.splits sum.splits if_splits)
qed

text \<open>
  Claim C5 fails on the paths that leave \<open>_run_sketch\<close> by an exception: the statement
  \<open>del user_ns['_py5_user_ns']\<close> stands after the \<open>with\<close> block and is not reached.  Two
  unsafe calls on a namespace that does not hold the name: in the first the execution of the
  framework code raises, in the second the SVG file the sketch saved cannot be decoded.
  Both calls raise, and both leave \<open>_py5_user_ns\<close> bound in the caller's namespace, while
  the temporary directory is removed.
\<close>

theorem unsafe_binding_left_when_run_sketch_raises:
  "user_ns world_ex ''_py5_user_ns'' = None
   \<and> fst (run_sketch (sys_env_ex exec_raises) ''P2D'' (''s = '' @ dq @ ''abc'' @ dq) ''100'' ''100''
           False world_ex) = Inl (OtherError ''SyntaxError'')
   \<and> user_ns (snd (run_sketch (sys_env_ex exec_raises) ''P2D'' (''s = '' @ dq @ ''abc'' @ dq)
           ''100'' ''100'' False world_ex)) ''_py5_user_ns'' = Some Namespace
   \<and> ''/tmp/tmpa'' \<notin> dirs (snd (run_sketch (sys_env_ex exec_raises) ''P2D''
           (''s = '' @ dq @ ''abc'' @ dq) ''100'' ''100'' False world_ex))
   \<and> fst (run_sketch (sys_env_ex (exec_saves ''/tmp/tmpa/output.svg'' ''bad'')) ''SVG''
           ''rect(1, 2, 3, 4)'' ''100'' ''100'' False world_ex) = Inl (OtherError ''UnicodeDecodeError'')
   \<and> user_ns (snd (run_sketch (sys_env_ex (exec_saves ''/tmp/tmpa/output.svg'' ''bad'')) ''SVG''
           ''rect(1, 2, 3, 4)'' ''100'' ''100'' False world_ex)) ''_py5_user_ns'' = Some Namespace"
  by (simp add: sketch_eval)

section \<open>Claims about \<open>load_json\<close>\<close>

text \<open>
  Claim C7.  For a string that matches the URL pattern and a request that yields a response,
  \<open>load_json\<close> returns what \<open>response.json()\<close> gives when the status is 200 and
  otherwise raises \<open>RuntimeError\<close> with the message \<open>Unable to download JSON URL: \<close>
  followed by the reason phrase; in both cases the only thing done to the outside is the
  request: no existence test, no file opened.
\<close>

theorem load_json_url_status:
  assumes "is_url s" and "requests_get env s = Inr resp"
  shows "load_json env (Str s)
           = (if status_code resp = 200 then response_json env resp
              else Inl (RuntimeError (''Unable to download JSON URL: '' @ reason resp)),
              [HttpGet s])
       \<and> filter is_fs_event (snd (load_json env (Str s))) = []"
  using assms by (simp add: load_json_url_def is_fs_event_def)

theorem load_json_url_status_witness:
  "is_url ''http://h/missing''
   \<and> requests_get data_env_ex ''http://h/missing''
        = Inr \<lparr>status_code = 404, reason = ''Not Found'', body = ''''\<rparr>
   \<and> load_json data_env_ex (Str ''http://h/missing'')
        = (Inl (RuntimeError ''Unable to download JSON URL: Not Found''), [HttpGet ''http://h/missing''])
   \<and> is_url ''http://h/ok''
   \<and> load_json data_env_ex (Str ''http://h/ok'') = (Inr ''[1]'', [HttpGet ''http://h/ok''])"
proof -
  have u1: "is_url ''http://h/missing''" and u2: "is_url ''http://h/ok''"
    by (simp_all add: is_url_def)
  have g1: "requests_get data_env_ex ''http://h/missing''
        = Inr \<lparr>status_code = 404, reason = ''Not Found'', body = ''''\<rparr>"
    and g2: "requests_get data_env_ex ''http://h/ok''
        = Inr \<lparr>status_code = 200, reason = ''OK'', body = ''[1]''\<rparr>"
    by (simp_all add: data_env_ex_def)
  from load_json_url_status[OF u1 g1] load_json_url_status[OF u2 g2] u1 u2 g1
  show ?thesis by (simp add: data_env_ex_def)
qed

text \<open>
  Claim C8.  For a source that is not a URL string (a \<open>Path\<close>, or a string that does not
  match the pattern), let the resolved path be the source itself when it is absolute,
  \<open>sketch_path/data/source\<close> when the source is relative and that path exists, and
  \<open>sketch_path/source\<close> otherwise.  If the resolved path exists and can be read,
  \<open>load_json\<close> returns what \<open>json.load\<close> gives for its content; if it does not exist,
  \<open>load_json\<close> raises \<open>RuntimeError\<close> with the message \<open>Unable to find JSON file \<close>
  followed by the source as it was passed.
\<close>

theorem load_json_file_resolution:
  assumes "\<forall>s. src = Str s \<longrightarrow> \<not> is_url s"
  shows "(let name = str_of src;
              in_data = join (join (sketch_path env) ''data'') name;
              path = (if is_absolute name then name
                      else if fs_exists env in_data then in_data
                      else join (sketch_path env) name)
          in (\<forall>text. fs_exists env path \<and> fs_read env path = Inr text \<longrightarrow>
                fst (load_json env src) = json_load env text)
           \<and> (\<not> fs_exists env path \<longrightarrow>
                fst (load_json env src)
                  = Inl (RuntimeError (''Unable to find JSON file '' @ name))))"
proof -
  have lj: "load_json env src = load_json_path env (str_of src)"
    using assms by (cases src) simp_all
  show ?thesis
    unfolding lj
    by (simp add: load_json_path_def resolve_path_def Let_def split: prod.splits)
qed

theorem load_json_file_resolution_witness:
  "\<not> is_url ''a.json'' \<and> \<not> is_url ''b.json'' \<and> \<not> is_url ''c.json''
   \<and> fst (load_json data_env_ex (Str ''a.json'')) = Inr ''{}''
   \<and> fst (load_json data_env_ex (Str ''b.json'')) = Inr ''[2]''
   \<and> fst (load_json data_env_ex (PathObj ''c.json''))
        = Inl (RuntimeError ''Unable to find JSON file c.json'')"
proof -
  have n: "\<not> is_url ''a.json''" "\<not> is_url ''b.json''" "\<not> is_url ''c.json''"
    by (simp_all add: is_url_def)
  have a: "\<forall>s. Str ''a.json'' = Str s \<longrightarrow> \<not> is_url s" using n by simp
  have b: "\<forall>s. Str ''b.json'' = Str s \<longrightarrow> \<not> is_url s" using n by simp
  have c: "\<forall>s. PathObj ''c.json'' = Str s \<longrightarrow> \<not> is_url s" by simp
  have ra: "fst (load_json data_env_ex (Str ''a.json'')) = Inr ''{}''"
    using load_json_file_resolution[OF a, of data_env_ex]
    by (simp add: data_env_ex_def join_def is_absolute_def Let_def)
  have rb: "fst (load_json data_env_ex (Str ''b.json'')) = Inr ''[2]''"
    using load_json_file_resolution[OF b, of data_env_ex]
    by (simp add: data_env_ex_def join_def is_absolute_def Let_def)
  have rc: "fst (load_json data_env_ex (PathObj ''c.json''))
        = Inl (RuntimeError ''Unable to find JSON file c.json'')"
    using load_json_file_resolution[OF c, of data_env_ex]
    by (simp add: data_env_ex_def join_def is_absolute_def Let_def)
  show ?thesis using n ra rb rc by simp
qed

section \<open>Further properties\<close>

text \<open>
  A lookup with the key \<open>None\<close> (or with a tuple that starts with \<open>None\<close>) is answered by
  the newest expired entry, if there is one: calling its reference yields \<open>None\<close>, which
  is the key.
\<close>

theorem check_cache_none_key_returns_expired_entry:
  assumes "first_of_tuple img = Inr PyNone"
    and "weak_image_refs s = A @ e # B"
    and "\<not> live env (fst e)"
    and "\<forall>b\<in>set B. live env (fst b)"
  shows "fst (check_cache env img s) = Inr (Some (snd e))"
proof -
  have hit: "cache_hit (live env) PyNone e"
    using assms(3) by (simp add: cache_hit_dead_iff)
  have nob: "\<forall>b\<in>set B. \<not> cache_hit (live env) PyNone b"
    using assms(4) by (simp add: cache_hit_def deref_def)
  from scan_refs_last_hit[OF hit nob, of A] assms(2)
  have "fst (scan_refs (live env) PyNone (length (weak_image_refs s)) (weak_image_refs s))
        = Some (snd e)" by auto
  then show ?thesis using assms(1) by (simp add: check_cache_scan)
qed

theorem check_cache_none_key_returns_expired_entry_witness:
  "first_of_tuple (PyTuple [PyNone, PyObj (5::nat)]) = Inr PyNone
   \<and> \<not> live (env_ex (\<lambda>a. a \<noteq> 2)) 2
   \<and> live (env_ex (\<lambda>a. a \<noteq> 2)) 3
   \<and> check_cache (env_ex (\<lambda>a. a \<noteq> 2)) (PyTuple [PyNone, PyObj 5])
        \<lparr>weak_image_refs = [(1, 10), (2, 20), (3, 30)], converter_calls = []\<rparr>
      = (Inr (Some 20), \<lparr>weak_image_refs = [(1, 10), (3, 30)], converter_calls = []\<rparr>)"
proof -
  let ?env = "env_ex (\<lambda>a. a \<noteq> 2)"
  let ?s = "\<lparr>weak_image_refs = [(1::nat, 10::nat), (2, 20), (3, 30)],
              converter_calls = [] :: nat pyval list\<rparr>"
  have k: "first_of_tuple (PyTuple [PyNone, PyObj (5::nat)]) = Inr PyNone" by simp
  have sp: "weak_image_refs ?s = [(1, 10)] @ (2, 20) # [(3, 30)]" by simp
  have d: "\<not> live ?env (fst (2::nat, 20::nat))" by (simp add: env_ex_def)
  have l: "\<forall>b\<in>set [(3::nat, 30::nat)]. live ?env (fst b)" by (simp add: env_ex_def)
  have l3: "live ?env 3" by (simp add: env_ex_def)
  have ev: "check_cache ?env (PyTuple [PyNone, PyObj 5]) ?s
            = (Inr (Some 20), \<lparr>weak_image_refs = [(1, 10), (3, 30)], converter_calls = []\<rparr>)"
    by (simp add: cache_eval)
  from check_cache_none_key_returns_expired_entry[OF k sp d l]
  have "fst (check_cache ?env (PyTuple [PyNone, PyObj 5]) ?s) = Inr (Some 20)" by simp
  then show ?thesis using k d l3 ev by simp
qed

text \<open>After \<open>flush_image_cache\<close> a cached call finds nothing and converts.\<close>

theorem flush_then_resolve_converts:
  assumes "first_of_tuple img = Inr key"
  shows "fst (check_cache env img (flush_image_cache s)) = Inr None
       \<and> converter_calls (snd (check_cache_or_convert env img True (flush_image_cache s)))
           = converter_calls s @ [img]"
proof -
  have none: "fst (scan_refs (live env) key (length (weak_image_refs (flush_image_cache s)))
                     (weak_image_refs (flush_image_cache s))) = None"
    by (simp add: flush_image_cache_def)
  have "fst (check_cache env img (flush_image_cache s)) = Inr None"
    using assms none by (simp add: check_cache_scan)
  moreover have "converter_calls (snd (check_cache_or_convert env img True (flush_image_cache s)))
           = converter_calls s @ [img]"
    using resolve_cached_miss[OF assms none]
    by (simp add: Let_def flush_image_cache_def split: sum.splits)
  ultimately show ?thesis by simp
qed

theorem flush_then_resolve_converts_witness:
  "first_of_tuple (PyObj (1::nat)) = Inr (PyObj 1)
   \<and> check_cache_or_convert (env_ex (\<lambda>a. True)) (PyObj 1) True
        (flush_image_cache \<lparr>weak_image_refs = [(1, 10)], converter_calls = [PyObj 1]\<rparr>)
      = (Inr 10, \<lparr>weak_image_refs = [(1, 10)], converter_calls = [PyObj 1, PyObj 1]\<rparr>)"
proof -
  let ?s = "\<lparr>weak_image_refs = [(1::nat, 10::nat)], converter_calls = [PyObj 1]\<rparr>"
  have k: "first_of_tuple (PyObj (1::nat)) = Inr (PyObj 1)" by simp
  have ev: "check_cache_or_convert (env_ex (\<lambda>a. True)) (PyObj 1) True (flush_image_cache ?s)
      = (Inr 10, \<lparr>weak_image_refs = [(1, 10)], converter_calls = [PyObj 1, PyObj 1]\<rparr>)"
    by (simp add: cache_eval)
  from flush_then_resolve_converts[OF k, of "env_ex (\<lambda>a. True)" ?s]
  have "converter_calls (snd (check_cache_or_convert (env_ex (\<lambda>a. True)) (PyObj 1) True
          (flush_image_cache ?s))) = [PyObj 1, PyObj 1]" by simp
  then show ?thesis using k ev by simp
qed

text \<open>
  An unsafe call that returns: the execution saves a PNG, and afterwards the namespace no
  longer holds \<open>_py5_user_ns\<close>.
\<close>

theorem unsafe_binding_removed_on_return_witness:
  "\<not> is_running world_ex
   \<and> fst (run_sketch (sys_env_ex (exec_saves ''/tmp/tmpa/output.png'' ''PNG'')) ''P2D''
             ''rect(1, 2, 3, 4)'' ''100'' ''100'' False world_ex) = Inr (Some (CBytes ''PNG''))
   \<and> user_ns (snd (run_sketch (sys_env_ex (exec_saves ''/tmp/tmpa/output.png'' ''PNG'')) ''P2D''
             ''rect(1, 2, 3, 4)'' ''100'' ''100'' False world_ex)) ''_py5_user_ns'' = None"
proof -
  let ?env = "sys_env_ex (exec_saves ''/tmp/tmpa/output.png'' ''PNG'')"
  have nr: "\<not> is_running world_ex" by (simp add: world_ex_def)
  have res: "fst (run_sketch ?env ''P2D'' ''rect(1, 2, 3, 4)'' ''100'' ''100'' False world_ex)
             = Inr (Some (CBytes ''PNG''))"
    by (simp add: sketch_eval)
  from unsafe_binding_removed_on_return[OF nr res] nr res
  show ?thesis by simp
qed

end
